theory Spec2Isabelle
  imports Complex_Main "HOL-Library.Word"
begin

unbundle bit_operations_syntax

section \<open>The host: strings, errors, numbers\<close>

text \<open>
  A JavaScript string is a sequence of UTF-16 code units. Text that the source writes as
  a literal is ASCII and is lifted with \<open>ascii\<close>.
\<close>

type_synonym js_string = "16 word list"

definition ascii :: "string \<Rightarrow> js_string" where
  "ascii s = map (\<lambda>c. of_nat (of_char c)) s"

text \<open>
  The exceptions that can occur. The \<open>TypeError\<close> that the source constructs carries its
  message; the messages of the errors that the host throws by itself (\<open>HostTypeError\<close>,
  \<open>RangeError\<close>, \<open>SyntaxError\<close>) are implementation-defined and not kept.
\<close>

datatype js_error = TypeError js_string | HostTypeError | RangeError | SyntaxError

text \<open>
  The Number values that \<open>Number(b)\<close> yields for a BigInt \<open>b\<close>: integer-valued doubles
  and the two infinities.
\<close>

datatype number = Finite int | Infinity | NegInfinity

text \<open>
  A Number that a caller passes as an argument: a finite double, which is a rational,
  \<open>NaN\<close>, or an infinity. The host's \<open>ToIntegerOrInfinity\<close> truncates a finite one towards
  zero and takes \<open>NaN\<close> to 0.
\<close>

datatype js_number = Num rat | NaN | PlusInfinity | MinusInfinity

definition ToIntegerOrInfinity :: "js_number \<Rightarrow> number" where
  "ToIntegerOrInfinity n =
     (case n of
        Num q \<Rightarrow> Finite (if q < 0 then \<lceil>q\<rceil> else \<lfloor>q\<rfloor>)
      | NaN \<Rightarrow> Finite 0
      | PlusInfinity \<Rightarrow> Infinity
      | MinusInfinity \<Rightarrow> NegInfinity)"

function bit_length :: "int \<Rightarrow> nat" where
  "bit_length m = (if m \<le> 0 then 0 else Suc (bit_length (m div 2)))"
  by pat_completeness auto
termination
  by (relation "measure nat") auto

declare bit_length.simps [simp del]

text \<open>
  \<open>Number(b)\<close> for a BigInt: the nearest double, ties to even. A double has a 53-bit
  significand, so a magnitude \<open>m\<close> of more than 53 bits loses its low \<open>e\<close> bits; a result of
  \<open>2 ^ 1024\<close> or more is an infinity.
\<close>

definition Number :: "int \<Rightarrow> number" where
  "Number b =
     (let m = \<bar>b\<bar>;
          e = bit_length m - 53;
          q = m div 2 ^ e;
          r = m mod 2 ^ e;
          q' = (if 2 * r > 2 ^ e \<or> (2 * r = 2 ^ e \<and> odd q) then q + 1 else q);
          a = q' * 2 ^ e
      in if a \<ge> 2 ^ 1024 then (if b < 0 then NegInfinity else Infinity)
         else Finite (if b < 0 then - a else a))"

text \<open>
  \<open>BigInt.asUintN(bits, b)\<close> is \<open>b\<close> modulo \<open>2 ^ bits\<close>; \<open>BigInt.asIntN(bits, b)\<close> takes the
  same residue and subtracts \<open>2 ^ bits\<close> when it is \<open>2 ^ (bits - 1)\<close> or more. The source
  passes the constants 8, 16, 21, 31, 32 and 64 for \<open>bits\<close>.
\<close>

definition asUintN :: "nat \<Rightarrow> int \<Rightarrow> int" where
  "asUintN bits b = b mod 2 ^ bits"

definition asIntN :: "nat \<Rightarrow> int \<Rightarrow> int" where
  "asIntN bits b =
     (let m = b mod 2 ^ bits
      in if bits \<noteq> 0 \<and> m \<ge> 2 ^ (bits - 1) then m - 2 ^ bits else m)"

section \<open>The class BigIntCoercion: numeric conversions\<close>

record BigIntCoercion =
  "value" :: int

text \<open>
  \<open>equals\<close> reads \<open>other.value\<close>; where \<open>other\<close> is \<open>null\<close> or \<open>undefined\<close>, here \<open>None\<close>, the
  host throws a \<open>TypeError\<close>.
\<close>

definition equals :: "BigIntCoercion \<Rightarrow> BigIntCoercion option \<Rightarrow> js_error + bool" where
  "equals this other =
     (case other of
        None \<Rightarrow> Inl HostTypeError
      | Some that \<Rightarrow> Inr (value this = value that))"

definition toBigInt :: "BigIntCoercion \<Rightarrow> int" where
  "toBigInt this = value this"

definition toInt8 :: "BigIntCoercion \<Rightarrow> number" where
  "toInt8 this = Number (asIntN 8 (value this))"

definition toUint8 :: "BigIntCoercion \<Rightarrow> number" where
  "toUint8 this = Number (asUintN 8 (value this))"

definition toInt16 :: "BigIntCoercion \<Rightarrow> number" where
  "toInt16 this = Number (asIntN 16 (value this))"

definition toUint16 :: "BigIntCoercion \<Rightarrow> number" where
  "toUint16 this = Number (asUintN 16 (value this))"

definition toInt32 :: "BigIntCoercion \<Rightarrow> number" where
  "toInt32 this = Number (asIntN 32 (value this))"

definition toUint32 :: "BigIntCoercion \<Rightarrow> number" where
  "toUint32 this = Number (asUintN 32 (value this))"

definition toAbsInt32 :: "BigIntCoercion \<Rightarrow> number" where
  "toAbsInt32 this =
     (let abs = (if value this < 0 then - value this else value this)
      in Number (asUintN 31 abs))"

definition toInt64 :: "BigIntCoercion \<Rightarrow> number" where
  "toInt64 this = Number (asIntN 64 (value this))"

definition toUint64 :: "BigIntCoercion \<Rightarrow> number" where
  "toUint64 this = Number (asUintN 64 (value this))"

definition toBigInt64 :: "BigIntCoercion \<Rightarrow> int" where
  "toBigInt64 this = asIntN 64 (value this)"

definition toBigUint64 :: "BigIntCoercion \<Rightarrow> int" where
  "toBigUint64 this = asUintN 64 (value this)"

definition toNumber :: "BigIntCoercion \<Rightarrow> number" where
  "toNumber this = Number (value this)"

definition isZero :: "BigIntCoercion \<Rightarrow> bool" where
  "isZero this = (value this = 0)"

definition isPositive :: "BigIntCoercion \<Rightarrow> bool" where
  "isPositive this = (value this > 0)"

definition isNegative :: "BigIntCoercion \<Rightarrow> bool" where
  "isNegative this = (value this < 0)"

text \<open>
  The remainder \<open>%\<close> of BigInts truncates towards zero and takes the sign of the dividend.
\<close>

definition js_rem :: "int \<Rightarrow> int \<Rightarrow> int" where
  "js_rem a b = sgn a * (\<bar>a\<bar> mod \<bar>b\<bar>)"

definition isEven :: "BigIntCoercion \<Rightarrow> bool" where
  "isEven this = (js_rem (value this) 2 = 0)"

definition isOdd :: "BigIntCoercion \<Rightarrow> bool" where
  "isOdd this = (js_rem (value this) 2 \<noteq> 0)"

section \<open>The host: values, \<open>typeof\<close> and \<open>String\<close>\<close>

text \<open>
  What a caller can pass at run time. The source inspects such a value with \<open>typeof\<close> and
  \<open>String(...)\<close> only, so a value that is neither a BigInt nor a string is given by its
  kind and by what \<open>String(...)\<close> does on it: \<open>null\<close> is \<open>OtherV Object (Inr (ascii ''null''))\<close>,
  the number 42 is \<open>OtherV NumberK (Inr (ascii ''42''))\<close>, and an object with no
  \<open>toString\<close> and no \<open>valueOf\<close> (\<open>Object.create(null)\<close>), whose conversion throws, is
  \<open>OtherV Object (Inl HostTypeError)\<close>.
\<close>

datatype other_kind = Undefined | Object | Boolean | NumberK | Symbol | Function

datatype js_value =
    BigIntV int
  | StringV js_string
  | OtherV other_kind "js_error + js_string"

definition digit_char :: "nat \<Rightarrow> 16 word" where
  "digit_char d = of_nat (if d < 10 then 48 + d else 87 + d)"

text \<open>
  The digits of a non-negative integer in a radix, most significant first, with the
  lower-case letters \<open>a\<close> to \<open>z\<close> for the digits from 10 on.
\<close>

function digits :: "nat \<Rightarrow> nat \<Rightarrow> js_string" where
  "digits r n =
     (if r < 2 \<or> n < r then [digit_char n]
      else digits r (n div r) @ [digit_char (n mod r)])"
  by pat_completeness auto
termination
  by (relation "measure snd") auto

declare digits.simps [simp del]

text \<open>
  \<open>b.toString(radix)\<close> of a BigInt \<open>b\<close>: an omitted radix is 10, a given one goes through
  \<open>ToIntegerOrInfinity\<close>, a result outside 2 to 36 is a \<open>RangeError\<close>; a negative value is a
  minus sign and the digits of its magnitude.
\<close>

definition BigInt_toString :: "int \<Rightarrow> js_number option \<Rightarrow> js_error + js_string" where
  "BigInt_toString b radix =
     (case (case radix of None \<Rightarrow> Finite 10 | Some n \<Rightarrow> ToIntegerOrInfinity n) of
        Finite r \<Rightarrow>
          if r < 2 \<or> 36 < r then Inl RangeError
          else Inr (if b < 0 then ascii ''-'' @ digits (nat r) (nat (- b))
                    else digits (nat r) (nat b))
      | Infinity \<Rightarrow> Inl RangeError
      | NegInfinity \<Rightarrow> Inl RangeError)"

text \<open>\<open>n.toString(radix)\<close> of a Number that is a byte, as the seed encoder calls it.\<close>

definition Number_toString :: "8 word \<Rightarrow> nat \<Rightarrow> js_string" where
  "Number_toString byte radix = digits radix (unat byte)"

definition padStart :: "js_string \<Rightarrow> nat \<Rightarrow> js_string \<Rightarrow> js_string" where
  "padStart s targetLength padString =
     (if targetLength \<le> length s \<or> padString = [] then s
      else take (targetLength - length s)
             (concat (replicate (targetLength - length s) padString)) @ s)"

definition typeof :: "js_value \<Rightarrow> js_string" where
  "typeof v =
     (case v of
        BigIntV b \<Rightarrow> ascii ''bigint''
      | StringV s \<Rightarrow> ascii ''string''
      | OtherV Undefined r \<Rightarrow> ascii ''undefined''
      | OtherV Object r \<Rightarrow> ascii ''object''
      | OtherV Boolean r \<Rightarrow> ascii ''boolean''
      | OtherV NumberK r \<Rightarrow> ascii ''number''
      | OtherV Symbol r \<Rightarrow> ascii ''symbol''
      | OtherV Function r \<Rightarrow> ascii ''function'')"

definition String_of :: "js_value \<Rightarrow> js_error + js_string" where
  "String_of v =
     (case v of
        BigIntV b \<Rightarrow> BigInt_toString b None
      | StringV s \<Rightarrow> Inr s
      | OtherV k r \<Rightarrow> r)"

subsection \<open>\<open>BigInt(string)\<close>\<close>

definition digit_value :: "16 word \<Rightarrow> nat option" where
  "digit_value c =
     (let n = unat c
      in if 48 \<le> n \<and> n \<le> 57 then Some (n - 48)
         else if 97 \<le> n \<and> n \<le> 122 then Some (n - 87)
         else if 65 \<le> n \<and> n \<le> 90 then Some (n - 55)
         else None)"

fun parse_digits :: "nat \<Rightarrow> nat \<Rightarrow> js_string \<Rightarrow> nat option" where
  "parse_digits r acc [] = Some acc"
| "parse_digits r acc (c # cs) =
     (case digit_value c of
        None \<Rightarrow> None
      | Some d \<Rightarrow> if d < r then parse_digits r (acc * r + d) cs else None)"

definition parse_radix :: "nat \<Rightarrow> js_string \<Rightarrow> nat option" where
  "parse_radix r ds = (if ds = [] then None else parse_digits r 0 ds)"

definition integer_literal :: "nat \<Rightarrow> js_string \<Rightarrow> js_error + int" where
  "integer_literal r ds =
     (case parse_radix r ds of None \<Rightarrow> Inl SyntaxError | Some n \<Rightarrow> Inr (int n))"

text \<open>
  \<open>BigInt(s)\<close> of a string: the empty string is 0, a \<open>0x\<close>, \<open>0o\<close> or \<open>0b\<close> marker is followed
  by at least one digit of that radix and takes no sign, anything else is a decimal
  integer with an optional sign; what does not parse is a \<open>SyntaxError\<close>. The white space
  that the host trims first does not occur in what the seed encoder passes.
\<close>

definition BigInt_of_string :: "js_string \<Rightarrow> js_error + int" where
  "BigInt_of_string s =
     (if s = [] then Inr 0
      else if take 2 s = ascii ''0x'' \<or> take 2 s = ascii ''0X'' then integer_literal 16 (drop 2 s)
      else if take 2 s = ascii ''0o'' \<or> take 2 s = ascii ''0O'' then integer_literal 8 (drop 2 s)
      else if take 2 s = ascii ''0b'' \<or> take 2 s = ascii ''0B'' then integer_literal 2 (drop 2 s)
      else if take 1 s = ascii ''-'' then
        (case integer_literal 10 (drop 1 s) of Inl e \<Rightarrow> Inl e | Inr n \<Rightarrow> Inr (- n))
      else if take 1 s = ascii ''+'' then integer_literal 10 (drop 1 s)
      else integer_literal 10 s)"

subsection \<open>\<open>String.fromCharCode\<close>, \<open>String.fromCodePoint\<close>, \<open>&\<close>\<close>

definition ToInt32 :: "number \<Rightarrow> int" where
  "ToInt32 n = (case n of Finite i \<Rightarrow> asIntN 32 i | Infinity \<Rightarrow> 0 | NegInfinity \<Rightarrow> 0)"

definition ToUint16 :: "number \<Rightarrow> int" where
  "ToUint16 n = (case n of Finite i \<Rightarrow> i mod 2 ^ 16 | Infinity \<Rightarrow> 0 | NegInfinity \<Rightarrow> 0)"

definition bitand :: "number \<Rightarrow> number \<Rightarrow> number" where
  "bitand a b = Finite (asIntN 32 (ToInt32 a AND ToInt32 b))"

definition greater :: "number \<Rightarrow> number \<Rightarrow> bool" where
  "greater a b =
     (case (a, b) of
        (Finite i, Finite j) \<Rightarrow> i > j
      | (Infinity, Finite j) \<Rightarrow> True
      | (Infinity, NegInfinity) \<Rightarrow> True
      | (Finite i, NegInfinity) \<Rightarrow> True
      | _ \<Rightarrow> False)"

definition fromCharCode :: "number \<Rightarrow> js_string" where
  "fromCharCode n = [word_of_int (ToUint16 n)]"

text \<open>
  \<open>String.fromCodePoint(n)\<close>: a \<open>RangeError\<close> outside 0 to 0x10FFFF, one code unit up to
  0xFFFF, a surrogate pair above.
\<close>

definition fromCodePoint :: "number \<Rightarrow> js_error + js_string" where
  "fromCodePoint n =
     (case n of
        Finite cp \<Rightarrow>
          if cp < 0 \<or> cp > 0x10FFFF then Inl RangeError
          else if cp \<le> 0xFFFF then Inr [word_of_int cp]
          else Inr [word_of_int ((cp - 0x10000) div 0x400 + 0xD800),
                    word_of_int ((cp - 0x10000) mod 0x400 + 0xDC00)]
      | Infinity \<Rightarrow> Inl RangeError
      | NegInfinity \<Rightarrow> Inl RangeError)"

subsection \<open>\<open>TextEncoder\<close>\<close>

text \<open>
  The encoder that a caller passes is an object on which the source calls \<open>encode\<close>: the
  call throws or returns a \<open>Uint8Array\<close>. The method can be the host's own or one that a
  subclass or another object provides.
\<close>

record TextEncoder =
  encode :: "js_string \<Rightarrow> js_error + 8 word list"

text \<open>
  The host's \<open>TextEncoder.prototype.encode\<close> first reads the UTF-16 code units as Unicode
  scalar values, a surrogate pair as one value and a lone surrogate as U+FFFD, and then
  writes each value in UTF-8. It is the method of every \<open>new TextEncoder()\<close>.
\<close>

definition is_lead :: "16 word \<Rightarrow> bool" where
  "is_lead c = (0xD800 \<le> unat c \<and> unat c \<le> 0xDBFF)"

definition is_trail :: "16 word \<Rightarrow> bool" where
  "is_trail c = (0xDC00 \<le> unat c \<and> unat c \<le> 0xDFFF)"

definition scalar_of_unit :: "16 word \<Rightarrow> nat" where
  "scalar_of_unit c = (if is_lead c \<or> is_trail c then 0xFFFD else unat c)"

fun scalar_values :: "js_string \<Rightarrow> nat list" where
  "scalar_values [] = []"
| "scalar_values [c] = [scalar_of_unit c]"
| "scalar_values (c # d # cs) =
     (if is_lead c \<and> is_trail d
      then (0x10000 + (unat c - 0xD800) * 0x400 + (unat d - 0xDC00)) # scalar_values cs
      else scalar_of_unit c # scalar_values (d # cs))"

definition utf8 :: "nat \<Rightarrow> 8 word list" where
  "utf8 cp =
     (if cp < 0x80 then [of_nat cp]
      else if cp < 0x800 then
        [of_nat (0xC0 + cp div 0x40), of_nat (0x80 + cp mod 0x40)]
      else if cp < 0x10000 then
        [of_nat (0xE0 + cp div 0x1000), of_nat (0x80 + cp div 0x40 mod 0x40),
         of_nat (0x80 + cp mod 0x40)]
      else
        [of_nat (0xF0 + cp div 0x40000), of_nat (0x80 + cp div 0x1000 mod 0x40),
         of_nat (0x80 + cp div 0x40 mod 0x40), of_nat (0x80 + cp mod 0x40)])"

definition TextEncoder_encode :: "js_string \<Rightarrow> 8 word list" where
  "TextEncoder_encode s = concat (map utf8 (scalar_values s))"

definition new_TextEncoder :: TextEncoder where
  "new_TextEncoder = \<lparr>encode = \<lambda>s. Inr (TextEncoder_encode s)\<rparr>"

text \<open>
  An encoder whose \<open>encode\<close> returns the same bytes for every text, as a subclass that
  overrides the method can.
\<close>

definition constant_encoder :: "8 word list \<Rightarrow> TextEncoder" where
  "constant_encoder bytes = \<lparr>encode = \<lambda>s. Inr bytes\<rparr>"

section \<open>The class BigIntCoercion: construction, characters, text\<close>

definition BigIntCoercion_new :: "js_value \<Rightarrow> js_error + BigIntCoercion" where
  "BigIntCoercion_new v =
     (case v of
        BigIntV b \<Rightarrow> Inr \<lparr>value = b\<rparr>
      | _ \<Rightarrow>
        (case String_of v of
           Inl e \<Rightarrow> Inl e
         | Inr r \<Rightarrow>
             Inl (TypeError (ascii ''Expected a bigint, but received '' @ typeof v
                             @ ascii ''. Value: '' @ r))))"

definition toChar :: "BigIntCoercion \<Rightarrow> js_string" where
  "toChar this = (let codePoint = toUint16 this in fromCharCode codePoint)"

definition toCodePoint :: "BigIntCoercion \<Rightarrow> js_error + js_string" where
  "toCodePoint this =
     (let codePoint = Number (asUintN 21 (value this))
      in if greater codePoint (Finite 0x10FFFF)
         then fromCodePoint (bitand codePoint (Finite 0x10FFFF))
         else fromCodePoint codePoint)"

definition toHex :: "BigIntCoercion \<Rightarrow> bool option \<Rightarrow> js_error + js_string" where
  "toHex this prefix =
     (case BigInt_toString (value this) (Some (Num 16)) of
        Inl e \<Rightarrow> Inl e
      | Inr hex \<Rightarrow> Inr (if prefix \<noteq> Some False then ascii ''0x'' @ hex else hex))"

definition toBinary :: "BigIntCoercion \<Rightarrow> bool option \<Rightarrow> js_error + js_string" where
  "toBinary this prefix =
     (case BigInt_toString (value this) (Some (Num 2)) of
        Inl e \<Rightarrow> Inl e
      | Inr binary \<Rightarrow> Inr (if prefix \<noteq> Some False then ascii ''0b'' @ binary else binary))"

definition toOctal :: "BigIntCoercion \<Rightarrow> bool option \<Rightarrow> js_error + js_string" where
  "toOctal this prefix =
     (case BigInt_toString (value this) (Some (Num 8)) of
        Inl e \<Rightarrow> Inl e
      | Inr octal \<Rightarrow> Inr (if prefix \<noteq> Some False then ascii ''0o'' @ octal else octal))"

definition toString :: "BigIntCoercion \<Rightarrow> js_number option \<Rightarrow> js_error + js_string" where
  "toString this radix =
     BigInt_toString (value this) (Some (case radix of None \<Rightarrow> Num 10 | Some r \<Rightarrow> r))"

section \<open>The seed encoder\<close>

definition stringToBigInt :: "js_value \<Rightarrow> TextEncoder option \<Rightarrow> js_error + BigIntCoercion" where
  "stringToBigInt seed encoder =
     (case seed of
        StringV s \<Rightarrow>
          if length s = 0 then BigIntCoercion_new (BigIntV 0)
          else
            (let textEncoder = (case encoder of None \<Rightarrow> new_TextEncoder | Some e \<Rightarrow> e)
             in case encode textEncoder s of
                  Inl e \<Rightarrow> Inl e
                | Inr encoded \<Rightarrow>
                   (let hex = concat (map (\<lambda>byte. padStart (Number_toString byte 16) 2
                                                     (ascii ''0''))
                                        encoded)
                    in case BigInt_of_string (ascii ''0x'' @ hex) of
                         Inl e \<Rightarrow> Inl e
                       | Inr b \<Rightarrow> BigIntCoercion_new (BigIntV b)))
      | _ \<Rightarrow>
        (case String_of seed of
           Inl e \<Rightarrow> Inl e
         | Inr r \<Rightarrow>
             Inl (TypeError (ascii ''Expected a string, but received '' @ typeof seed
                             @ ascii ''. Value: '' @ r))))"

section \<open>Reference notions\<close>

text \<open>
  The value of a byte sequence read as one base-256 numeral, first byte most significant.
\<close>

definition big_endian :: "8 word list \<Rightarrow> nat" where
  "big_endian bytes =
     (\<Sum>i<length bytes. unat (bytes ! i) * 256 ^ (length bytes - 1 - i))"

text \<open>
  The code point that \<open>toCodePoint\<close> is to render: the value modulo \<open>2 ^ 21\<close>, masked with
  0x10FFFF when it exceeds 0x10FFFF.
\<close>

definition code_point_of :: "int \<Rightarrow> int" where
  "code_point_of V =
     (let c = V mod 2 ^ 21 in if c \<le> 0x10FFFF then c else c AND 0x10FFFF)"

text \<open>
  \<open>s.codePointAt(0)\<close>: the code point that a string starts with, a surrogate pair read as
  one code point.
\<close>

definition codePointAt :: "js_string \<Rightarrow> nat option" where
  "codePointAt s =
     (case s of
        [] \<Rightarrow> None
      | [c] \<Rightarrow> Some (unat c)
      | c # d # cs \<Rightarrow>
          if is_lead c \<and> is_trail d
          then Some (0x10000 + (unat c - 0xD800) * 0x400 + (unat d - 0xDC00))
          else Some (unat c))"

text \<open>
  Reading a rendering back: a signed numeral in a radix, after removing a marker when the
  text starts with one.
\<close>

definition parse_signed :: "nat \<Rightarrow> js_string \<Rightarrow> int option" where
  "parse_signed r s =
     (if take 1 s = ascii ''-'' then map_option (\<lambda>n. - int n) (parse_radix r (drop 1 s))
      else map_option int (parse_radix r s))"

definition strip_marker :: "js_string \<Rightarrow> js_string \<Rightarrow> js_string" where
  "strip_marker marker s =
     (if take (length marker) s = marker then drop (length marker) s else s)"

section \<open>Fixed-width conversions\<close>

lemma bit_length_le: "m < 2 ^ k \<Longrightarrow> bit_length m \<le> k"
proof (induction k arbitrary: m)
  case 0
  then show ?case by (simp add: bit_length.simps)
next
  case (Suc k)
  show ?case
  proof (cases "m \<le> 0")
    case True
    then show ?thesis by (simp add: bit_length.simps)
  next
    case False
    from Suc.prems have "m div 2 < 2 ^ k" by simp
    then have "bit_length (m div 2) \<le> k" by (rule Suc.IH)
    with False show ?thesis by (subst bit_length.simps) simp
  qed
qed

lemma Number_safe: "\<bar>b\<bar> < 2 ^ 53 \<Longrightarrow> Number b = Finite b"
proof -
  assume h: "\<bar>b\<bar> < 2 ^ 53"
  then have e: "bit_length \<bar>b\<bar> - 53 = 0"
    using bit_length_le by simp
  have "(2::int) ^ 53 \<le> 2 ^ 1024"
    by (rule power_increasing) simp_all
  with h have s: "\<not> (2::int) ^ 1024 \<le> \<bar>b\<bar>" by linarith
  show ?thesis
    unfolding Number_def Let_def e using s by auto
qed

lemma asUintN_range: "0 \<le> asUintN bits b \<and> asUintN bits b < 2 ^ bits"
  by (simp add: asUintN_def)

lemma asUintN_period:
  "asUintN bits (b + 2 ^ bits) = asUintN bits b" "asUintN bits (b - 2 ^ bits) = asUintN bits b"
  by (simp_all add: asUintN_def)

lemma Number_asUintN: "bits \<le> 53 \<Longrightarrow> Number (asUintN bits b) = Finite (b mod 2 ^ bits)"
proof -
  assume "bits \<le> 53"
  then have "(2::int) ^ bits \<le> 2 ^ 53"
    by (intro power_increasing) simp_all
  moreover have "0 \<le> b mod 2 ^ bits" "b mod 2 ^ bits < 2 ^ bits"
    by simp_all
  ultimately have "\<bar>b mod 2 ^ bits\<bar> < 2 ^ 53"
    by linarith
  then show ?thesis
    unfolding asUintN_def by (rule Number_safe)
qed

lemma wrap_half:
  fixes m h :: int
  assumes "0 \<le> m" "m < 2 * h"
  shows "- h \<le> (if h \<le> m then m - 2 * h else m)"
    and "(if h \<le> m then m - 2 * h else m) \<le> h - 1"
    and "(m + h) mod (2 * h) - h = (if h \<le> m then m - 2 * h else m)"
proof -
  show "- h \<le> (if h \<le> m then m - 2 * h else m)"
    using assms by auto
  show "(if h \<le> m then m - 2 * h else m) \<le> h - 1"
    using assms by auto
  show "(m + h) mod (2 * h) - h = (if h \<le> m then m - 2 * h else m)"
  proof (cases "h \<le> m")
    case True
    have "(m + h) mod (2 * h) = (m - h + 2 * h) mod (2 * h)"
      by (simp add: algebra_simps)
    also have "\<dots> = (m - h) mod (2 * h)"
      by (rule mod_add_self2)
    also have "\<dots> = m - h"
      using True assms by (intro mod_pos_pos_trivial) auto
    finally show ?thesis using True by simp
  next
    case False
    then have "(m + h) mod (2 * h) = m + h"
      using assms by (intro mod_pos_pos_trivial) auto
    then show ?thesis using False by simp
  qed
qed

lemma asIntN_unfold:
  "asIntN (Suc k) b = (if 2 ^ k \<le> b mod 2 ^ Suc k then b mod 2 ^ Suc k - 2 * 2 ^ k else b mod 2 ^ Suc k)"
  by (simp add: asIntN_def Let_def)

lemma asIntN_range:
  assumes "0 < bits"
  shows "- (2 ^ (bits - 1)) \<le> asIntN bits b \<and> asIntN bits b \<le> 2 ^ (bits - 1) - 1"
proof -
  from assms obtain k where k: "bits = Suc k" by (cases bits) auto
  have m: "0 \<le> b mod 2 ^ Suc k" "b mod 2 ^ Suc k < 2 * 2 ^ k"
    by simp_all
  show ?thesis
    unfolding k asIntN_unfold using wrap_half(1,2) [OF m] by simp
qed

lemma asIntN_mod: "asIntN bits b mod 2 ^ bits = asUintN bits b"
  by (simp add: asIntN_def asUintN_def Let_def)

lemma asIntN_sint: "asIntN LENGTH('a::len) b = sint (word_of_int b :: 'a word)"
proof -
  obtain k where k: "LENGTH('a) = Suc k" by (cases "LENGTH('a)") auto
  have m: "0 \<le> b mod 2 ^ Suc k" "b mod 2 ^ Suc k < 2 * 2 ^ k"
    by simp_all
  have "sint (word_of_int b :: 'a word) = (b mod 2 ^ Suc k + 2 ^ k) mod (2 * 2 ^ k) - 2 ^ k"
    by (simp add: sint_uint uint_word_of_int signed_take_bit_eq_take_bit_shift take_bit_eq_mod k)
  also have "\<dots> = asIntN (Suc k) b"
    unfolding asIntN_unfold by (rule wrap_half(3) [OF m])
  finally show ?thesis by (simp add: k)
qed

lemma Number_asIntN: "0 < bits \<Longrightarrow> bits \<le> 53 \<Longrightarrow> Number (asIntN bits b) = Finite (asIntN bits b)"
proof -
  assume b: "0 < bits" "bits \<le> 53"
  then have "(2::int) ^ (bits - 1) < 2 ^ 53"
    by (intro power_strict_increasing) simp_all
  with asIntN_range [OF b(1), of b] have "\<bar>asIntN bits b\<bar> < 2 ^ 53"
    by linarith
  then show ?thesis by (rule Number_safe)
qed


lemma unsigned_small:
  assumes "bits \<le> 53"
  shows "Number (asUintN bits V) = Finite (V mod 2 ^ bits)"
    and "Number (asUintN bits (V + 2 ^ bits)) = Number (asUintN bits V)"
    and "Number (asUintN bits (V - 2 ^ bits)) = Number (asUintN bits V)"
    and "\<exists>n. Number (asUintN bits V) = Finite n \<and> 0 \<le> n \<and> n \<le> 2 ^ bits - 1"
proof -
  show "Number (asUintN bits V) = Finite (V mod 2 ^ bits)"
    by (rule Number_asUintN [OF assms])
  then show "\<exists>n. Number (asUintN bits V) = Finite n \<and> 0 \<le> n \<and> n \<le> 2 ^ bits - 1"
    by simp
qed (simp_all only: asUintN_period)

text \<open>
  Claim C1. For every BigInt \<open>V\<close>, \<open>toUint8\<close>, \<open>toUint16\<close>, \<open>toUint32\<close> and \<open>toBigUint64\<close>
  return the non-negative residue of \<open>V\<close> modulo \<open>2 ^ N\<close>, and so does \<open>toUint64\<close> when that
  residue is at most \<open>2 ^ 53 - 1\<close>; the result lies between 0 and \<open>2 ^ N - 1\<close>; adding or
  subtracting \<open>2 ^ N\<close> does not change it; \<open>toUint8\<close> of -1 is 255 and \<open>toBigUint64\<close> of -1
  is \<open>2 ^ 64 - 1\<close>.
\<close>

theorem unsigned_conversion_is_residue:
  "toUint8 \<lparr>value = V\<rparr> = Finite (V mod 2 ^ 8)
   \<and> toUint16 \<lparr>value = V\<rparr> = Finite (V mod 2 ^ 16)
   \<and> toUint32 \<lparr>value = V\<rparr> = Finite (V mod 2 ^ 32)
   \<and> toBigUint64 \<lparr>value = V\<rparr> = V mod 2 ^ 64
   \<and> (V mod 2 ^ 64 \<le> 2 ^ 53 - 1 \<longrightarrow> toUint64 \<lparr>value = V\<rparr> = Finite (V mod 2 ^ 64))
   \<and> (\<exists>n. toUint8 \<lparr>value = V\<rparr> = Finite n \<and> 0 \<le> n \<and> n \<le> 2 ^ 8 - 1)
   \<and> (\<exists>n. toUint16 \<lparr>value = V\<rparr> = Finite n \<and> 0 \<le> n \<and> n \<le> 2 ^ 16 - 1)
   \<and> (\<exists>n. toUint32 \<lparr>value = V\<rparr> = Finite n \<and> 0 \<le> n \<and> n \<le> 2 ^ 32 - 1)
   \<and> 0 \<le> toBigUint64 \<lparr>value = V\<rparr> \<and> toBigUint64 \<lparr>value = V\<rparr> \<le> 2 ^ 64 - 1
   \<and> toUint8 \<lparr>value = V + 2 ^ 8\<rparr> = toUint8 \<lparr>value = V\<rparr>
   \<and> toUint8 \<lparr>value = V - 2 ^ 8\<rparr> = toUint8 \<lparr>value = V\<rparr>
   \<and> toUint16 \<lparr>value = V + 2 ^ 16\<rparr> = toUint16 \<lparr>value = V\<rparr>
   \<and> toUint16 \<lparr>value = V - 2 ^ 16\<rparr> = toUint16 \<lparr>value = V\<rparr>
   \<and> toUint32 \<lparr>value = V + 2 ^ 32\<rparr> = toUint32 \<lparr>value = V\<rparr>
   \<and> toUint32 \<lparr>value = V - 2 ^ 32\<rparr> = toUint32 \<lparr>value = V\<rparr>
   \<and> toBigUint64 \<lparr>value = V + 2 ^ 64\<rparr> = toBigUint64 \<lparr>value = V\<rparr>
   \<and> toBigUint64 \<lparr>value = V - 2 ^ 64\<rparr> = toBigUint64 \<lparr>value = V\<rparr>
   \<and> toUint64 \<lparr>value = V + 2 ^ 64\<rparr> = toUint64 \<lparr>value = V\<rparr>
   \<and> toUint64 \<lparr>value = V - 2 ^ 64\<rparr> = toUint64 \<lparr>value = V\<rparr>
   \<and> toUint8 \<lparr>value = - 1\<rparr> = Finite 255
   \<and> toBigUint64 \<lparr>value = - 1\<rparr> = 2 ^ 64 - 1"
proof -
  have u8: "(8::nat) \<le> 53" and u16: "(16::nat) \<le> 53" and u32: "(32::nat) \<le> 53"
    by simp_all
  have safe64: "V mod 2 ^ 64 \<le> 2 ^ 53 - 1 \<longrightarrow> toUint64 \<lparr>value = V\<rparr> = Finite (V mod 2 ^ 64)"
  proof
    assume "V mod 2 ^ 64 \<le> 2 ^ 53 - 1"
    moreover have "0 \<le> V mod 2 ^ 64" by simp
    ultimately have "\<bar>V mod 2 ^ 64\<bar> < 2 ^ 53" by linarith
    then show "toUint64 \<lparr>value = V\<rparr> = Finite (V mod 2 ^ 64)"
      by (simp add: toUint64_def asUintN_def Number_safe)
  qed
  have big: "0 \<le> toBigUint64 \<lparr>value = V\<rparr>" "toBigUint64 \<lparr>value = V\<rparr> \<le> 2 ^ 64 - 1"
    using asUintN_range [of 64 V] by (simp_all add: toBigUint64_def)
  have m1: "toUint8 \<lparr>value = - 1\<rparr> = Finite 255"
    using unsigned_small(1) [OF u8, of "- 1"] by (simp add: toUint8_def)
  have m2: "toBigUint64 \<lparr>value = - 1\<rparr> = 2 ^ 64 - 1"
    by (simp add: toBigUint64_def asUintN_def)
  show ?thesis
    unfolding toUint8_def toUint16_def toUint32_def
    using unsigned_small [OF u8, of V] unsigned_small [OF u16, of V] unsigned_small [OF u32, of V]
      safe64 big m1 m2
    apply (intro conjI)
    apply (simp_all only: toUint8_def toUint16_def toUint32_def toUint64_def toBigUint64_def
        asUintN_period BigIntCoercion.simps)
    apply (simp_all add: asUintN_def)
    done
qed

theorem unsigned_conversion_is_residue_witness:
  "(2 ^ 64 + 5 :: int) mod 2 ^ 64 \<le> 2 ^ 53 - 1 \<and> toUint64 \<lparr>value = 2 ^ 64 + 5\<rparr> = Finite 5"
  using unsigned_conversion_is_residue [of "2 ^ 64 + 5"] by simp


lemma signed_small:
  assumes "bits = Suc k" "bits \<le> 53"
  shows "Number (asIntN bits V) =
           Finite (if V mod 2 ^ bits < 2 ^ k then V mod 2 ^ bits else V mod 2 ^ bits - 2 ^ bits)"
    and "\<exists>s. Number (asIntN bits V) = Finite s \<and> - (2 ^ k) \<le> s \<and> s \<le> 2 ^ k - 1
           \<and> Number (asUintN bits V) = Finite (s mod 2 ^ bits)"
proof -
  have pos: "0 < bits" using assms by simp
  have n: "Number (asIntN bits V) = Finite (asIntN bits V)"
    using pos assms(2) by (rule Number_asIntN)
  have "asIntN bits V =
           (if V mod 2 ^ bits < 2 ^ k then V mod 2 ^ bits else V mod 2 ^ bits - 2 ^ bits)"
    unfolding assms(1) asIntN_unfold by (simp add: not_le)
  with n show "Number (asIntN bits V) =
           Finite (if V mod 2 ^ bits < 2 ^ k then V mod 2 ^ bits else V mod 2 ^ bits - 2 ^ bits)"
    by simp
  have "- (2 ^ k) \<le> asIntN bits V \<and> asIntN bits V \<le> 2 ^ k - 1"
    using asIntN_range [OF pos, of V] by (simp add: assms(1))
  moreover have "Number (asUintN bits V) = Finite (asIntN bits V mod 2 ^ bits)"
    unfolding asIntN_mod using Number_asUintN [OF assms(2), of V] by (simp add: asUintN_def)
  ultimately show "\<exists>s. Number (asIntN bits V) = Finite s \<and> - (2 ^ k) \<le> s \<and> s \<le> 2 ^ k - 1
           \<and> Number (asUintN bits V) = Finite (s mod 2 ^ bits)"
    using n by blast
qed

lemma asIntN_64:
  "asIntN 64 V = (if V mod 2 ^ 64 < 2 ^ 63 then V mod 2 ^ 64 else V mod 2 ^ 64 - 2 ^ 64)"
  using asIntN_unfold [of 63 V] by (simp add: not_le)

text \<open>
  Claim C2. For every BigInt \<open>V\<close>, \<open>toInt8\<close>, \<open>toInt16\<close>, \<open>toInt32\<close> and \<open>toBigInt64\<close> return
  the two's-complement reading of \<open>V\<close> modulo \<open>2 ^ N\<close>: the residue when it is below
  \<open>2 ^ (N - 1)\<close> and the residue less \<open>2 ^ N\<close> otherwise, which is the signed value of the
  \<open>N\<close>-bit word of \<open>V\<close>; the result lies between \<open>- 2 ^ (N - 1)\<close> and \<open>2 ^ (N - 1) - 1\<close>, its
  residue modulo \<open>2 ^ N\<close> is the unsigned conversion, and \<open>toBigInt64\<close> of \<open>2 ^ 63\<close> is
  \<open>- 2 ^ 63\<close>.
\<close>

theorem signed_conversion_is_twos_complement:
  "toInt8 \<lparr>value = V\<rparr> =
     Finite (if V mod 2 ^ 8 < 2 ^ 7 then V mod 2 ^ 8 else V mod 2 ^ 8 - 2 ^ 8)
   \<and> toInt16 \<lparr>value = V\<rparr> =
     Finite (if V mod 2 ^ 16 < 2 ^ 15 then V mod 2 ^ 16 else V mod 2 ^ 16 - 2 ^ 16)
   \<and> toInt32 \<lparr>value = V\<rparr> =
     Finite (if V mod 2 ^ 32 < 2 ^ 31 then V mod 2 ^ 32 else V mod 2 ^ 32 - 2 ^ 32)
   \<and> toBigInt64 \<lparr>value = V\<rparr> =
     (if V mod 2 ^ 64 < 2 ^ 63 then V mod 2 ^ 64 else V mod 2 ^ 64 - 2 ^ 64)
   \<and> toInt8 \<lparr>value = V\<rparr> = Finite (sint (word_of_int V :: 8 word))
   \<and> toInt16 \<lparr>value = V\<rparr> = Finite (sint (word_of_int V :: 16 word))
   \<and> toInt32 \<lparr>value = V\<rparr> = Finite (sint (word_of_int V :: 32 word))
   \<and> toBigInt64 \<lparr>value = V\<rparr> = sint (word_of_int V :: 64 word)
   \<and> (\<exists>s. toInt8 \<lparr>value = V\<rparr> = Finite s \<and> - (2 ^ 7) \<le> s \<and> s \<le> 2 ^ 7 - 1
          \<and> toUint8 \<lparr>value = V\<rparr> = Finite (s mod 2 ^ 8))
   \<and> (\<exists>s. toInt16 \<lparr>value = V\<rparr> = Finite s \<and> - (2 ^ 15) \<le> s \<and> s \<le> 2 ^ 15 - 1
          \<and> toUint16 \<lparr>value = V\<rparr> = Finite (s mod 2 ^ 16))
   \<and> (\<exists>s. toInt32 \<lparr>value = V\<rparr> = Finite s \<and> - (2 ^ 31) \<le> s \<and> s \<le> 2 ^ 31 - 1
          \<and> toUint32 \<lparr>value = V\<rparr> = Finite (s mod 2 ^ 32))
   \<and> - (2 ^ 63) \<le> toBigInt64 \<lparr>value = V\<rparr> \<and> toBigInt64 \<lparr>value = V\<rparr> \<le> 2 ^ 63 - 1
   \<and> toBigUint64 \<lparr>value = V\<rparr> = toBigInt64 \<lparr>value = V\<rparr> mod 2 ^ 64
   \<and> toBigInt64 \<lparr>value = 2 ^ 63\<rparr> = - (2 ^ 63)"
proof -
  have b8: "(8::nat) = Suc 7" "(8::nat) \<le> 53"
    and b16: "(16::nat) = Suc 15" "(16::nat) \<le> 53"
    and b32: "(32::nat) = Suc 31" "(32::nat) \<le> 53"
    by simp_all
  have w8: "Number (asIntN 8 V) = Finite (sint (word_of_int V :: 8 word))"
    using asIntN_sint [where 'a = 8, of V] Number_asIntN [of 8 V] by simp
  have w16: "Number (asIntN 16 V) = Finite (sint (word_of_int V :: 16 word))"
    using asIntN_sint [where 'a = 16, of V] Number_asIntN [of 16 V] by simp
  have w32: "Number (asIntN 32 V) = Finite (sint (word_of_int V :: 32 word))"
    using asIntN_sint [where 'a = 32, of V] Number_asIntN [of 32 V] by simp
  have w64: "asIntN 64 V = sint (word_of_int V :: 64 word)"
    using asIntN_sint [where 'a = 64, of V] by simp
  have r64: "- (2 ^ 63) \<le> asIntN 64 V" "asIntN 64 V \<le> 2 ^ 63 - 1"
    using asIntN_range [of 64 V] by simp_all
  have u64: "asUintN 64 V = asIntN 64 V mod 2 ^ 64"
    by (simp only: asIntN_mod)
  have edge: "asIntN 64 (2 ^ 63) = - (2 ^ 63)"
    by (simp add: asIntN_64)
  show ?thesis
    unfolding toInt8_def toInt16_def toInt32_def toBigInt64_def
      toUint8_def toUint16_def toUint32_def toBigUint64_def BigIntCoercion.simps
    using signed_small [OF b8, of V] signed_small [OF b16, of V] signed_small [OF b32, of V]
      asIntN_64 [of V] w8 w16 w32 w64 r64 u64 edge
    by (intro conjI) assumption+
qed

text \<open>
  Claim C5. For every BigInt \<open>V\<close>, \<open>toAbsInt32\<close> is the magnitude of \<open>V\<close> modulo \<open>2 ^ 31\<close>,
  lies between 0 and \<open>2 ^ 31 - 1\<close>, and is the same for \<open>V\<close> and \<open>- V\<close>; for some value it
  differs from the absolute value of \<open>toInt32\<close>.
\<close>

theorem toAbsInt32_is_magnitude_residue:
  "toAbsInt32 \<lparr>value = V\<rparr> = Finite (\<bar>V\<bar> mod 2 ^ 31)
   \<and> (\<exists>n. toAbsInt32 \<lparr>value = V\<rparr> = Finite n \<and> 0 \<le> n \<and> n \<le> 2 ^ 31 - 1)
   \<and> toAbsInt32 \<lparr>value = - V\<rparr> = toAbsInt32 \<lparr>value = V\<rparr>
   \<and> (\<exists>W s. toInt32 \<lparr>value = W\<rparr> = Finite s \<and> toAbsInt32 \<lparr>value = W\<rparr> \<noteq> Finite \<bar>s\<bar>)"
proof -
  have b31: "(31::nat) \<le> 53" by simp
  have eq: "toAbsInt32 \<lparr>value = W\<rparr> = Finite (\<bar>W\<bar> mod 2 ^ 31)" for W
  proof -
    have "toAbsInt32 \<lparr>value = W\<rparr> = Number (asUintN 31 \<bar>W\<bar>)"
      by (simp only: toAbsInt32_def Let_def BigIntCoercion.simps abs_if [symmetric])
    then show ?thesis
      using unsigned_small(1) [OF b31, of "\<bar>W\<bar>"] by simp
  qed
  have rng: "\<exists>n. toAbsInt32 \<lparr>value = V\<rparr> = Finite n \<and> 0 \<le> n \<and> n \<le> 2 ^ 31 - 1"
    unfolding eq by simp
  have neg: "toAbsInt32 \<lparr>value = - V\<rparr> = toAbsInt32 \<lparr>value = V\<rparr>"
    unfolding eq by simp
  have "toInt32 \<lparr>value = 2 ^ 31\<rparr> = Finite (- (2 ^ 31))"
    using signed_small(1) [of 32 31 "2 ^ 31"] by (simp add: toInt32_def)
  moreover have "toAbsInt32 \<lparr>value = 2 ^ 31\<rparr> \<noteq> Finite \<bar>- (2 ^ 31)\<bar>"
    unfolding eq by simp
  ultimately have ex: "\<exists>W s. toInt32 \<lparr>value = W\<rparr> = Finite s \<and> toAbsInt32 \<lparr>value = W\<rparr> \<noteq> Finite \<bar>s\<bar>"
    by blast
  show ?thesis
    using eq [of V] rng neg ex by (intro conjI)
qed


section \<open>The seed encoder's value\<close>

lemma big_endian_Nil: "big_endian [] = 0"
  by (simp add: big_endian_def)

lemma big_endian_Cons: "big_endian (b # bs) = unat b * 256 ^ length bs + big_endian bs"
  by (simp add: big_endian_def sum.lessThan_Suc_shift del: sum.lessThan_Suc)

lemma foldl_big_endian:
  "foldl (\<lambda>acc byte. acc * 256 + unat byte) acc bytes = acc * 256 ^ length bytes + big_endian bytes"
  by (induction bytes arbitrary: acc) (simp_all add: big_endian_Nil big_endian_Cons algebra_simps)

lemma digit_char_unat: "d < 36 \<Longrightarrow> unat (digit_char d) = (if d < 10 then 48 + d else 87 + d)"
  by (simp add: digit_char_def unat_of_nat)

lemma digit_value_digit_char: "d < 36 \<Longrightarrow> digit_value (digit_char d) = Some d"
  by (simp add: digit_value_def digit_char_unat Let_def)

lemma digits_small: "n < r \<Longrightarrow> digits r n = [digit_char n]"
  by (subst digits.simps) simp

lemma digits_step: "2 \<le> r \<Longrightarrow> r \<le> n \<Longrightarrow> digits r n = digits r (n div r) @ [digit_char (n mod r)]"
  by (subst digits.simps) simp

lemma hex_pair:
  "padStart (Number_toString byte 16) 2 (ascii ''0'') =
     [digit_char (unat byte div 16), digit_char (unat byte mod 16)]"
proof -
  have lt: "unat byte < 256"
    using unsigned_less [of byte, where ?'a = nat] by simp
  show ?thesis
  proof (cases "unat byte < 16")
    case True
    then show ?thesis
      by (simp add: Number_toString_def digits_small padStart_def ascii_def digit_char_def)
  next
    case False
    then have "digits 16 (unat byte) = digits 16 (unat byte div 16) @ [digit_char (unat byte mod 16)]"
      by (intro digits_step) simp_all
    moreover have "unat byte div 16 < 16"
      using lt by simp
    ultimately have "digits 16 (unat byte) = [digit_char (unat byte div 16), digit_char (unat byte mod 16)]"
      by (simp add: digits_small)
    then show ?thesis
      by (simp add: Number_toString_def padStart_def)
  qed
qed

lemma parse_hex_pair:
  "parse_digits 16 acc (padStart (Number_toString byte 16) 2 (ascii ''0'') @ rest) =
     parse_digits 16 (acc * 256 + unat byte) rest"
proof -
  have "unat byte div 16 < 16"
    using unsigned_less [of byte, where ?'a = nat] by simp
  then have hi: "digit_value (digit_char (unat byte div 16)) = Some (unat byte div 16)"
    by (intro digit_value_digit_char) simp
  have lo: "digit_value (digit_char (unat byte mod 16)) = Some (unat byte mod 16)"
    by (intro digit_value_digit_char) simp
  have ar: "(acc * 16 + unat byte div 16) * 16 + unat byte mod 16 = acc * 256 + unat byte"
    by (simp add: algebra_simps)
  have "parse_digits 16 acc (padStart (Number_toString byte 16) 2 (ascii ''0'') @ rest) =
      parse_digits 16 ((acc * 16 + unat byte div 16) * 16 + unat byte mod 16) rest"
    using \<open>unat byte div 16 < 16\<close> by (simp add: hex_pair hi lo)
  then show ?thesis
    by (simp only: ar)
qed

lemma parse_hex_bytes:
  "parse_digits 16 acc
     (concat (map (\<lambda>byte. padStart (Number_toString byte 16) 2 (ascii ''0'')) bytes)) =
   Some (foldl (\<lambda>acc byte. acc * 256 + unat byte) acc bytes)"
  by (induction bytes arbitrary: acc) (simp_all add: parse_hex_pair)

lemma hex_nonempty:
  "bytes \<noteq> [] \<Longrightarrow>
     concat (map (\<lambda>byte. padStart (Number_toString byte 16) 2 (ascii ''0'')) bytes) \<noteq> []"
  by (cases bytes) (simp_all add: hex_pair)

lemma utf8_nonempty: "utf8 cp \<noteq> []"
  by (simp add: utf8_def)

lemma scalar_values_nonempty: "s \<noteq> [] \<Longrightarrow> scalar_values s \<noteq> []"
  by (induction s rule: scalar_values.induct) simp_all

lemma TextEncoder_encode_nonempty: "s \<noteq> [] \<Longrightarrow> TextEncoder_encode s \<noteq> []"
  using scalar_values_nonempty [of s]
  by (cases "scalar_values s") (simp_all add: TextEncoder_encode_def utf8_nonempty)

lemma BigInt_of_hex:
  "hex \<noteq> [] \<Longrightarrow> BigInt_of_string (ascii ''0x'' @ hex) = integer_literal 16 hex"
  by (simp add: BigInt_of_string_def ascii_def)

lemma BigInt_of_bare_marker: "BigInt_of_string (ascii ''0x'') = Inl SyntaxError"
  by (simp add: BigInt_of_string_def ascii_def integer_literal_def parse_radix_def)

lemma BigInt_of_hex_bytes:
  "BigInt_of_string
     (ascii ''0x'' @ concat (map (\<lambda>byte. padStart (Number_toString byte 16) 2 (ascii ''0'')) bytes))
   = (if bytes = [] then Inl SyntaxError else Inr (int (big_endian bytes)))"
proof (cases "bytes = []")
  case True
  then show ?thesis
    using BigInt_of_bare_marker by simp
next
  case False
  define hex where
    "hex = concat (map (\<lambda>byte. padStart (Number_toString byte 16) 2 (ascii ''0'')) bytes)"
  have "hex \<noteq> []"
    unfolding hex_def using False by (rule hex_nonempty)
  then have "BigInt_of_string (ascii ''0x'' @ hex) = integer_literal 16 hex"
    by (rule BigInt_of_hex)
  also have "\<dots> = Inr (int (big_endian bytes))"
    using \<open>hex \<noteq> []\<close> parse_hex_bytes [of 0 bytes]
    by (simp add: integer_literal_def parse_radix_def hex_def foldl_big_endian)
  finally show ?thesis
    using False by (simp add: hex_def)
qed

text \<open>
  What \<open>stringToBigInt\<close> does on a string, by the bytes that the encoder returns.
\<close>

lemma stringToBigInt_string:
  "stringToBigInt (StringV s) encoder =
     (if s = [] then Inr \<lparr>value = 0\<rparr>
      else case encode (case encoder of None \<Rightarrow> new_TextEncoder | Some e \<Rightarrow> e) s of
             Inl err \<Rightarrow> Inl err
           | Inr bytes \<Rightarrow>
               if bytes = [] then Inl SyntaxError
               else Inr \<lparr>value = int (big_endian bytes)\<rparr>)"
  by (simp add: stringToBigInt_def Let_def BigInt_of_hex_bytes BigIntCoercion_new_def
      split: sum.splits)

lemma stringToBigInt_default:
  "stringToBigInt (StringV s) None = Inr \<lparr>value = int (big_endian (TextEncoder_encode s))\<rparr>"
  "stringToBigInt (StringV s) (Some new_TextEncoder) =
     Inr \<lparr>value = int (big_endian (TextEncoder_encode s))\<rparr>"
proof -
  have "stringToBigInt (StringV s) None =
        Inr \<lparr>value = int (big_endian (TextEncoder_encode s))\<rparr>
      \<and> stringToBigInt (StringV s) (Some new_TextEncoder) =
        Inr \<lparr>value = int (big_endian (TextEncoder_encode s))\<rparr>"
  proof (cases "s = []")
    case True
    have "TextEncoder_encode [] = []" by (simp add: TextEncoder_encode_def)
    then show ?thesis
      by (simp add: True stringToBigInt_string big_endian_Nil)
  next
    case False
    then show ?thesis
      using TextEncoder_encode_nonempty [OF False]
      by (simp add: stringToBigInt_string new_TextEncoder_def)
  qed
  then show "stringToBigInt (StringV s) None =
      Inr \<lparr>value = int (big_endian (TextEncoder_encode s))\<rparr>"
    and "stringToBigInt (StringV s) (Some new_TextEncoder) =
      Inr \<lparr>value = int (big_endian (TextEncoder_encode s))\<rparr>"
    by blast+
qed

lemma encode_ascii_A: "TextEncoder_encode (ascii ''A'') = [65]"
  by (simp add: TextEncoder_encode_def ascii_def scalar_of_unit_def is_lead_def is_trail_def utf8_def)

lemma encode_ascii_AB: "TextEncoder_encode (ascii ''AB'') = [65, 66]"
  by (simp add: TextEncoder_encode_def ascii_def scalar_of_unit_def is_lead_def is_trail_def utf8_def)

text \<open>
  Claim C3. For every string \<open>s\<close>, \<open>stringToBigInt\<close>, with no encoder or with a
  \<open>new TextEncoder()\<close>, returns an instance whose value is the UTF-8 byte sequence of \<open>s\<close>
  read as a big-endian base-256 numeral, which is what the concatenated two-digit
  hexadecimal pairs denote in base 16; the empty string gives 0 through the early return,
  whatever the encoder (the bare marker \<open>0x\<close> would not parse), \<open>A\<close> gives 65 and \<open>AB\<close> gives
  0x4142.
\<close>

theorem stringToBigInt_is_big_endian_utf8:
  "stringToBigInt (StringV s) None = Inr \<lparr>value = int (big_endian (TextEncoder_encode s))\<rparr>
   \<and> stringToBigInt (StringV s) (Some new_TextEncoder) =
       Inr \<lparr>value = int (big_endian (TextEncoder_encode s))\<rparr>
   \<and> parse_digits 16 0
         (concat (map (\<lambda>byte. padStart (Number_toString byte 16) 2 (ascii ''0''))
                    (TextEncoder_encode s)))
       = Some (big_endian (TextEncoder_encode s))
   \<and> stringToBigInt (StringV []) encoder = Inr \<lparr>value = 0\<rparr>
   \<and> BigInt_of_string (ascii ''0x'') = Inl SyntaxError
   \<and> (\<exists>c. stringToBigInt (StringV (ascii ''A'')) None = Inr c \<and> toBigInt c = 65)
   \<and> (\<exists>c. stringToBigInt (StringV (ascii ''AB'')) None = Inr c \<and> toBigInt c = 0x4142)"
proof -
  have hex: "parse_digits 16 0
         (concat (map (\<lambda>byte. padStart (Number_toString byte 16) 2 (ascii ''0''))
                    (TextEncoder_encode s)))
       = Some (big_endian (TextEncoder_encode s))"
    by (simp add: parse_hex_bytes foldl_big_endian)
  have empty: "stringToBigInt (StringV []) encoder = Inr \<lparr>value = 0\<rparr>"
    by (simp add: stringToBigInt_string)
  have "stringToBigInt (StringV (ascii ''A'')) None = Inr \<lparr>value = 65\<rparr>"
    by (simp add: stringToBigInt_default encode_ascii_A big_endian_Cons big_endian_Nil)
  then have a: "\<exists>c. stringToBigInt (StringV (ascii ''A'')) None = Inr c \<and> toBigInt c = 65"
    by (simp add: toBigInt_def)
  have "stringToBigInt (StringV (ascii ''AB'')) None = Inr \<lparr>value = 0x4142\<rparr>"
    by (simp add: stringToBigInt_default encode_ascii_AB big_endian_Cons big_endian_Nil)
  then have ab: "\<exists>c. stringToBigInt (StringV (ascii ''AB'')) None = Inr c \<and> toBigInt c = 0x4142"
    by (simp add: toBigInt_def)
  show ?thesis
    using stringToBigInt_default [of s] hex empty BigInt_of_bare_marker a ab by (intro conjI)
qed

text \<open>
  Claim C9, as the code has it. The result of \<open>stringToBigInt\<close> depends on the encoder only
  through what its \<open>encode\<close> returns for the text: two encoders that return the same for
  \<open>s\<close> give the same result; an encoder that returns the UTF-8 bytes of \<open>s\<close>, as every
  \<open>new TextEncoder()\<close> does, gives the result of the call with no encoder; non-empty bytes
  give their big-endian value. For the empty string and for a seed that is not a string
  the encoder is not consulted.
\<close>

theorem stringToBigInt_depends_on_encoded_bytes:
  "(encode A s = encode B s \<longrightarrow>
      stringToBigInt (StringV s) (Some A) = stringToBigInt (StringV s) (Some B))
   \<and> (encode A s = Inr (TextEncoder_encode s) \<longrightarrow>
      stringToBigInt (StringV s) (Some A) = stringToBigInt (StringV s) None)
   \<and> (s \<noteq> [] \<and> encode A s = Inr bytes \<and> bytes \<noteq> [] \<longrightarrow>
      stringToBigInt (StringV s) (Some A) = Inr \<lparr>value = int (big_endian bytes)\<rparr>)
   \<and> stringToBigInt (StringV s) (Some new_TextEncoder) = stringToBigInt (StringV s) None
   \<and> stringToBigInt (StringV []) (Some A) = stringToBigInt (StringV []) None
   \<and> stringToBigInt (BigIntV b) (Some A) = stringToBigInt (BigIntV b) None
   \<and> stringToBigInt (OtherV k r) (Some A) = stringToBigInt (OtherV k r) None"
proof -
  have same: "encode A s = encode B s \<longrightarrow>
      stringToBigInt (StringV s) (Some A) = stringToBigInt (StringV s) (Some B)"
    by (simp add: stringToBigInt_string)
  have genuine: "encode A s = Inr (TextEncoder_encode s) \<longrightarrow>
      stringToBigInt (StringV s) (Some A) = stringToBigInt (StringV s) None"
    by (simp add: stringToBigInt_string new_TextEncoder_def)
  have bytes: "s \<noteq> [] \<and> encode A s = Inr bytes \<and> bytes \<noteq> [] \<longrightarrow>
      stringToBigInt (StringV s) (Some A) = Inr \<lparr>value = int (big_endian bytes)\<rparr>"
    by (simp add: stringToBigInt_string)
  have dflt: "stringToBigInt (StringV s) (Some new_TextEncoder) = stringToBigInt (StringV s) None"
    by (simp add: stringToBigInt_default)
  have empty: "stringToBigInt (StringV []) (Some A) = stringToBigInt (StringV []) None"
    by (simp add: stringToBigInt_string)
  have other: "stringToBigInt (BigIntV b) (Some A) = stringToBigInt (BigIntV b) None"
    "stringToBigInt (OtherV k r) (Some A) = stringToBigInt (OtherV k r) None"
    by (simp_all add: stringToBigInt_def)
  show ?thesis
    using same genuine bytes dflt empty other by (intro conjI)
qed

theorem stringToBigInt_depends_on_encoded_bytes_witness:
  "encode (constant_encoder [65]) (ascii ''A'') = encode new_TextEncoder (ascii ''A'')
   \<and> encode (constant_encoder [65]) (ascii ''A'') = Inr (TextEncoder_encode (ascii ''A''))
   \<and> ascii ''A'' \<noteq> [] \<and> [65 :: 8 word] \<noteq> []
   \<and> stringToBigInt (StringV (ascii ''A'')) (Some (constant_encoder [65])) =
       stringToBigInt (StringV (ascii ''A'')) (Some new_TextEncoder)
   \<and> stringToBigInt (StringV (ascii ''A'')) (Some (constant_encoder [65])) =
       stringToBigInt (StringV (ascii ''A'')) None
   \<and> stringToBigInt (StringV (ascii ''A'')) (Some (constant_encoder [65])) = Inr \<lparr>value = 65\<rparr>"
proof -
  have e: "encode (constant_encoder [65]) (ascii ''A'') = Inr [65]"
    "encode new_TextEncoder (ascii ''A'') = Inr [65]"
    by (simp_all add: constant_encoder_def new_TextEncoder_def encode_ascii_A)
  have c1: "encode (constant_encoder [65]) (ascii ''A'') = encode new_TextEncoder (ascii ''A'')"
    by (simp only: e)
  have c2: "encode (constant_encoder [65]) (ascii ''A'') = Inr (TextEncoder_encode (ascii ''A''))"
    by (simp only: e encode_ascii_A)
  have n: "ascii ''A'' \<noteq> []" "[65 :: 8 word] \<noteq> []"
    by (simp_all add: ascii_def)
  have v: "int (big_endian [65]) = 65"
    by (simp add: big_endian_Cons big_endian_Nil)
  note t = stringToBigInt_depends_on_encoded_bytes
      [of "constant_encoder [65]" "ascii ''A''" new_TextEncoder "[65]" 0 Undefined "Inr []"]
  from t c1 have r1: "stringToBigInt (StringV (ascii ''A'')) (Some (constant_encoder [65])) =
       stringToBigInt (StringV (ascii ''A'')) (Some new_TextEncoder)"
    by blast
  from t c2 have r2: "stringToBigInt (StringV (ascii ''A'')) (Some (constant_encoder [65])) =
       stringToBigInt (StringV (ascii ''A'')) None"
    by blast
  from t n e(1) have "stringToBigInt (StringV (ascii ''A'')) (Some (constant_encoder [65])) =
       Inr \<lparr>value = int (big_endian [65])\<rparr>"
    by blast
  then have r3: "stringToBigInt (StringV (ascii ''A'')) (Some (constant_encoder [65])) =
       Inr \<lparr>value = 65\<rparr>"
    by (simp only: v)
  show ?thesis
    using c1 c2 n r1 r2 r3 by (intro conjI)
qed

text \<open>
  Claim C9, as stated, fails: for the text \<open>A\<close>, an encoder whose \<open>encode\<close> returns the byte
  66 gives 66, where a \<open>new TextEncoder()\<close> and the call with no encoder give 65.
\<close>

theorem stringToBigInt_follows_the_encoder:
  "stringToBigInt (StringV (ascii ''A'')) (Some (constant_encoder [66])) = Inr \<lparr>value = 66\<rparr>
   \<and> stringToBigInt (StringV (ascii ''A'')) (Some new_TextEncoder) = Inr \<lparr>value = 65\<rparr>
   \<and> stringToBigInt (StringV (ascii ''A'')) None = Inr \<lparr>value = 65\<rparr>"
proof -
  have "ascii ''A'' \<noteq> []" by (simp add: ascii_def)
  then show ?thesis
    by (simp add: stringToBigInt_string constant_encoder_def new_TextEncoder_def encode_ascii_A
        big_endian_Cons big_endian_Nil)
qed

lemma scalar_values_NUL: "scalar_values (0 # s) = 0 # scalar_values s"
  by (cases s) (simp_all add: scalar_of_unit_def is_lead_def is_trail_def)

lemma encode_NUL: "TextEncoder_encode (0 # s) = 0 # TextEncoder_encode s"
  by (simp add: TextEncoder_encode_def scalar_values_NUL utf8_def)

lemma big_endian_NUL: "big_endian (0 # bytes) = big_endian bytes"
  by (simp add: big_endian_Cons)

text \<open>
  Claim C10. A leading NUL character does not change the result of \<open>stringToBigInt\<close>; the
  string of one NUL and the empty string both give 0, and two different non-empty
  strings can give the same result.
\<close>

theorem stringToBigInt_ignores_leading_NUL:
  "stringToBigInt (StringV (0 # s)) None = stringToBigInt (StringV s) None
   \<and> stringToBigInt (StringV (0 # s)) (Some new_TextEncoder) =
       stringToBigInt (StringV s) (Some new_TextEncoder)
   \<and> stringToBigInt (StringV [0]) None = Inr \<lparr>value = 0\<rparr>
   \<and> stringToBigInt (StringV []) None = Inr \<lparr>value = 0\<rparr>
   \<and> (\<exists>s1 s2. s1 \<noteq> [] \<and> s2 \<noteq> [] \<and> s1 \<noteq> s2
        \<and> stringToBigInt (StringV s1) None = stringToBigInt (StringV s2) None)"
proof -
  have nul: "stringToBigInt (StringV (0 # t)) None = stringToBigInt (StringV t) None" for t
    by (simp add: stringToBigInt_default encode_NUL big_endian_NUL)
  have nul': "stringToBigInt (StringV (0 # s)) (Some new_TextEncoder) =
       stringToBigInt (StringV s) (Some new_TextEncoder)"
    by (simp add: stringToBigInt_default encode_NUL big_endian_NUL)
  have empty: "stringToBigInt (StringV []) None = Inr \<lparr>value = 0\<rparr>"
    by (simp add: stringToBigInt_string)
  have one: "stringToBigInt (StringV [0]) None = Inr \<lparr>value = 0\<rparr>"
    using nul [of "[]"] empty by simp
  have "stringToBigInt (StringV [0, 0]) None = stringToBigInt (StringV [0]) None"
    by (rule nul)
  moreover have "[0, 0] \<noteq> ([] :: js_string)" "[0] \<noteq> ([] :: js_string)" "[0, 0] \<noteq> ([0] :: js_string)"
    by simp_all
  ultimately have "\<exists>s1 s2. s1 \<noteq> [] \<and> s2 \<noteq> [] \<and> s1 \<noteq> s2
        \<and> stringToBigInt (StringV s1) None = stringToBigInt (StringV s2) None"
    by blast
  with nul [of s] nul' one empty show ?thesis by (intro conjI)
qed

section \<open>Radix renderings\<close>

lemma parse_digits_append:
  "parse_digits r acc (xs @ ys) =
     (case parse_digits r acc xs of None \<Rightarrow> None | Some a \<Rightarrow> parse_digits r a ys)"
  by (induction xs arbitrary: acc) (simp_all split: option.splits)

lemma parse_digits_digits:
  "2 \<le> r \<Longrightarrow> r \<le> 36 \<Longrightarrow> parse_digits r 0 (digits r n) = Some n"
proof (induction r n rule: digits.induct)
  case (1 r n)
  show ?case
  proof (cases "n < r")
    case True
    with "1.prems" show ?thesis
      by (simp add: digits_small digit_value_digit_char)
  next
    case False
    with "1.prems" have ih: "parse_digits r 0 (digits r (n div r)) = Some (n div r)"
      by (intro "1.IH") simp_all
    have "n mod r < 36" "n mod r < r"
      using "1.prems" by (simp_all add: less_le_trans [OF mod_less_divisor])
    then have "parse_digits r (n div r) [digit_char (n mod r)] = Some (n div r * r + n mod r)"
      by (simp add: digit_value_digit_char)
    with ih False "1.prems" show ?thesis
      by (simp add: digits_step parse_digits_append)
  qed
qed

lemma digits_nonempty: "digits r n \<noteq> []"
  by (subst digits.simps) simp

lemma digits_chars:
  "2 \<le> r \<Longrightarrow> c \<in> set (digits r n) \<Longrightarrow> \<exists>d<r. c = digit_char d"
proof (induction r n rule: digits.induct)
  case (1 r n)
  show ?case
  proof (cases "n < r")
    case True
    with "1.prems" show ?thesis
      by (auto simp: digits_small)
  next
    case False
    with "1.prems" have "c \<in> set (digits r (n div r)) \<or> c = digit_char (n mod r)"
      by (auto simp: digits_step)
    then show ?thesis
    proof
      assume "c \<in> set (digits r (n div r))"
      with False "1.prems" show ?thesis by (intro "1.IH") simp_all
    next
      assume "c = digit_char (n mod r)"
      moreover have "n mod r < r" using "1.prems" by simp
      ultimately show ?thesis by blast
    qed
  qed
qed

lemma digit_char_not:
  assumes "d < r" "r \<le> 36"
  shows "digit_char d \<noteq> 45"
    and "r \<le> 16 \<Longrightarrow> digit_char d \<noteq> 120"
    and "r \<le> 8 \<Longrightarrow> digit_char d \<noteq> 111"
    and "r \<le> 2 \<Longrightarrow> digit_char d \<noteq> 98"
proof -
  have u: "unat (digit_char d) = (if d < 10 then 48 + d else 87 + d)"
    using assms by (intro digit_char_unat) simp
  show "digit_char d \<noteq> 45"
  proof
    assume "digit_char d = 45"
    then have "unat (digit_char d) = 45" by simp
    with u show False by (simp split: if_splits)
  qed
  show "digit_char d \<noteq> 120" if "r \<le> 16"
  proof
    assume "digit_char d = 120"
    then have "unat (digit_char d) = 120" by simp
    with u that assms show False by (simp split: if_splits)
  qed
  show "digit_char d \<noteq> 111" if "r \<le> 8"
  proof
    assume "digit_char d = 111"
    then have "unat (digit_char d) = 111" by simp
    with u that assms show False by (simp split: if_splits)
  qed
  show "digit_char d \<noteq> 98" if "r \<le> 2"
  proof
    assume "digit_char d = 98"
    then have "unat (digit_char d) = 98" by simp
    with u that assms show False by (simp split: if_splits)
  qed
qed

lemma digits_hd_not_minus:
  assumes "2 \<le> r" "r \<le> 36"
  shows "take 1 (digits r n) \<noteq> ascii ''-''"
proof
  assume a: "take 1 (digits r n) = ascii ''-''"
  obtain c cs where d: "digits r n = c # cs"
    using digits_nonempty [of r n] by (cases "digits r n") auto
  with a have "c = 45" by (simp add: ascii_def)
  moreover have "c \<in> set (digits r n)" by (simp add: d)
  ultimately obtain k where "k < r" "digit_char k = 45"
    using digits_chars [OF assms(1), of c n] by auto
  then show False
    using digit_char_not(1) [of k r] assms(2) by simp
qed

lemma parse_signed_digits:
  assumes "2 \<le> r" "r \<le> 36"
  shows "parse_signed r (if V < 0 then ascii ''-'' @ digits r (nat (- V)) else digits r (nat V))
           = Some V"
proof (cases "V < 0")
  case True
  have "parse_radix r (digits r (nat (- V))) = Some (nat (- V))"
    using assms by (simp add: parse_radix_def digits_nonempty parse_digits_digits)
  then show ?thesis
    using True by (simp add: parse_signed_def ascii_def)
next
  case False
  have "parse_radix r (digits r (nat V)) = Some (nat V)"
    using assms by (simp add: parse_radix_def digits_nonempty parse_digits_digits)
  then show ?thesis
    using False digits_hd_not_minus [OF assms, of "nat V"] by (simp add: parse_signed_def)
qed

lemma ToIntegerOrInfinity_int: "ToIntegerOrInfinity (Num (of_int r)) = Finite r"
  by (simp add: ToIntegerOrInfinity_def)

lemma BigInt_toString_int:
  "BigInt_toString V (Some (Num (of_int r))) =
     (if r < 2 \<or> 36 < r then Inl RangeError
      else Inr (if V < 0 then ascii ''-'' @ digits (nat r) (nat (- V))
                else digits (nat r) (nat V)))"
  by (simp add: BigInt_toString_def ToIntegerOrInfinity_int)

lemma BigInt_toString_numeral:
  "BigInt_toString V (Some (Num 16)) =
     Inr (if V < 0 then ascii ''-'' @ digits 16 (nat (- V)) else digits 16 (nat V))"
  "BigInt_toString V (Some (Num 2)) =
     Inr (if V < 0 then ascii ''-'' @ digits 2 (nat (- V)) else digits 2 (nat V))"
  "BigInt_toString V (Some (Num 8)) =
     Inr (if V < 0 then ascii ''-'' @ digits 8 (nat (- V)) else digits 8 (nat V))"
  "BigInt_toString V (Some (Num 10)) =
     Inr (if V < 0 then ascii ''-'' @ digits 10 (nat (- V)) else digits 10 (nat V))"
  using BigInt_toString_int [of V 16] BigInt_toString_int [of V 2]
    BigInt_toString_int [of V 8] BigInt_toString_int [of V 10]
  by simp_all

lemma toString_roundtrip:
  assumes "2 \<le> r" "r \<le> 36"
  shows "\<exists>s. toString \<lparr>value = V\<rparr> (Some (Num (of_int r))) = Inr s
           \<and> parse_signed (nat r) s = Some V"
proof -
  have "2 \<le> nat r" "nat r \<le> 36" using assms by simp_all
  then have "parse_signed (nat r)
      (if V < 0 then ascii ''-'' @ digits (nat r) (nat (- V)) else digits (nat r) (nat V)) = Some V"
    by (rule parse_signed_digits)
  then show ?thesis
    using assms by (simp add: toString_def BigInt_toString_int)
qed

lemma no_marker:
  assumes "2 \<le> r" "r \<le> 36" "\<And>d. d < r \<Longrightarrow> digit_char d \<noteq> m"
  shows "take 2 (if V < 0 then ascii ''-'' @ digits r (nat (- V)) else digits r (nat V)) \<noteq> [48, m]"
proof (cases "V < 0")
  case True
  then show ?thesis by (simp add: ascii_def)
next
  case False
  show ?thesis
  proof
    assume a: "take 2 (if V < 0 then ascii ''-'' @ digits r (nat (- V)) else digits r (nat V)) = [48, m]"
    then have "take 2 (digits r (nat V)) = [48, m]" using False by simp
    then have "m \<in> set (digits r (nat V))"
      by (metis in_set_takeD list.set_intros(1,2))
    then obtain d where "d < r" "m = digit_char d"
      using digits_chars [OF assms(1)] by blast
    with assms(3) show False by blast
  qed
qed

lemma strip_marker_prefixed: "strip_marker [48, m] (48 # m # s) = s"
  by (simp add: strip_marker_def)

lemma strip_marker_absent: "take 2 s \<noteq> [48, m] \<Longrightarrow> strip_marker [48, m] s = s"
  by (auto simp: strip_marker_def numeral_2_eq_2)

lemma marked_roundtrip:
  assumes "2 \<le> r" "r \<le> 36" "\<And>d. d < r \<Longrightarrow> digit_char d \<noteq> m"
    and "body = (if V < 0 then ascii ''-'' @ digits r (nat (- V)) else digits r (nat V))"
  shows "parse_signed r (strip_marker [48, m] (if prefix \<noteq> Some False then [48, m] @ body else body))
           = Some V"
proof -
  note body = assms(4)
  have "strip_marker [48, m] body = body"
    unfolding body using assms(1-3) by (intro strip_marker_absent no_marker)
  then have "strip_marker [48, m] (if prefix \<noteq> Some False then [48, m] @ body else body) = body"
    by (simp add: strip_marker_prefixed)
  then show ?thesis
    using parse_signed_digits [OF assms(1,2), of V] by (simp add: body)
qed

lemma toHex_roundtrip:
  "\<exists>s. toHex \<lparr>value = V\<rparr> prefix = Inr s
       \<and> parse_signed 16 (strip_marker (ascii ''0x'') s) = Some V"
proof -
  define body where
    "body = (if V < 0 then ascii ''-'' @ digits 16 (nat (- V)) else digits 16 (nat V))"
  have b: "BigInt_toString V (Some (Num 16)) = Inr body"
    unfolding body_def by (rule BigInt_toString_numeral)
  have "parse_signed 16 (strip_marker [48, 120] (if prefix \<noteq> Some False then [48, 120] @ body else body))
           = Some V"
    using body_def by (intro marked_roundtrip digit_char_not(2) [where r = 16]) simp_all
  then show ?thesis
    by (cases "prefix = Some False") (simp_all add: toHex_def b ascii_def)
qed

lemma toBinary_roundtrip:
  "\<exists>s. toBinary \<lparr>value = V\<rparr> prefix = Inr s
       \<and> parse_signed 2 (strip_marker (ascii ''0b'') s) = Some V"
proof -
  define body where
    "body = (if V < 0 then ascii ''-'' @ digits 2 (nat (- V)) else digits 2 (nat V))"
  have b: "BigInt_toString V (Some (Num 2)) = Inr body"
    unfolding body_def by (rule BigInt_toString_numeral)
  have "parse_signed 2 (strip_marker [48, 98] (if prefix \<noteq> Some False then [48, 98] @ body else body))
           = Some V"
    using body_def by (intro marked_roundtrip digit_char_not(4) [where r = 2]) simp_all
  then show ?thesis
    by (cases "prefix = Some False") (simp_all add: toBinary_def b ascii_def)
qed

lemma toOctal_roundtrip:
  "\<exists>s. toOctal \<lparr>value = V\<rparr> prefix = Inr s
       \<and> parse_signed 8 (strip_marker (ascii ''0o'') s) = Some V"
proof -
  define body where
    "body = (if V < 0 then ascii ''-'' @ digits 8 (nat (- V)) else digits 8 (nat V))"
  have b: "BigInt_toString V (Some (Num 8)) = Inr body"
    unfolding body_def by (rule BigInt_toString_numeral)
  have "parse_signed 8 (strip_marker [48, 111] (if prefix \<noteq> Some False then [48, 111] @ body else body))
           = Some V"
    using body_def by (intro marked_roundtrip digit_char_not(3) [where r = 8]) simp_all
  then show ?thesis
    by (cases "prefix = Some False") (simp_all add: toOctal_def b ascii_def)
qed

text \<open>
  Claim C8. For every BigInt \<open>V\<close> and every radix from 2 to 36, reading the output of
  \<open>toString\<close> back as a signed numeral of that radix gives \<open>V\<close>; for \<open>toHex\<close>, \<open>toBinary\<close> and
  \<open>toOctal\<close>, with or without the marker, removing the marker when it is there and reading
  the rest as a signed numeral in base 16, 2 and 8 gives \<open>V\<close>.
\<close>

theorem radix_renderings_round_trip:
  "(2 \<le> r \<and> r \<le> 36 \<longrightarrow>
      (\<exists>s. toString \<lparr>value = V\<rparr> (Some (Num (of_int r))) = Inr s
         \<and> parse_signed (nat r) s = Some V))
   \<and> (\<exists>s. toString \<lparr>value = V\<rparr> None = Inr s \<and> parse_signed 10 s = Some V)
   \<and> (\<exists>s. toHex \<lparr>value = V\<rparr> prefix = Inr s
         \<and> parse_signed 16 (strip_marker (ascii ''0x'') s) = Some V)
   \<and> (\<exists>s. toBinary \<lparr>value = V\<rparr> prefix = Inr s
         \<and> parse_signed 2 (strip_marker (ascii ''0b'') s) = Some V)
   \<and> (\<exists>s. toOctal \<lparr>value = V\<rparr> prefix = Inr s
         \<and> parse_signed 8 (strip_marker (ascii ''0o'') s) = Some V)"
proof -
  have dflt: "\<exists>s. toString \<lparr>value = V\<rparr> None = Inr s \<and> parse_signed 10 s = Some V"
    using toString_roundtrip [of 10 V] by (simp add: toString_def)
  show ?thesis
    using toString_roundtrip [of r V] dflt toHex_roundtrip [of V prefix]
      toBinary_roundtrip [of V prefix] toOctal_roundtrip [of V prefix]
    by blast
qed

lemma digits_255: "digits 16 255 = ascii ''ff''"
  by (simp add: digits_step digits_small digit_char_def ascii_def)

theorem radix_renderings_round_trip_witness:
  "(2::int) \<le> 16 \<and> (16::int) \<le> 36
   \<and> toString \<lparr>value = - 255\<rparr> (Some (Num 16)) = Inr (ascii ''-ff'')
   \<and> parse_signed 16 (ascii ''-ff'') = Some (- 255)"
proof -
  have s: "toString \<lparr>value = - 255\<rparr> (Some (Num 16)) = Inr (ascii ''-ff'')"
    by (simp add: toString_def BigInt_toString_numeral digits_255 ascii_def)
  from radix_renderings_round_trip [of 16 "- 255" None]
  have "\<exists>s. toString \<lparr>value = - 255\<rparr> (Some (Num 16)) = Inr s
      \<and> parse_signed (nat 16) s = Some (- 255)"
    by simp
  with s show ?thesis by simp
qed


lemma negative_rendering:
  assumes "V < 0" "2 \<le> r" "r \<le> 36"
  shows "BigInt_toString V (Some (Num (of_nat r))) = Inr (ascii ''-'' @ digits r (nat (- V)))"
    and "parse_radix r (digits r (nat (- V))) = Some (nat (- V))"
  using assms BigInt_toString_int [of V "int r"]
  by (simp_all add: parse_radix_def digits_nonempty parse_digits_digits)

text \<open>
  Claim C4, as the code has it. For every negative BigInt \<open>V\<close>, \<open>toHex\<close>, \<open>toBinary\<close> and
  \<open>toOctal\<close> with the prefix enabled render the marker first, then a minus sign, then the
  digits of the magnitude of \<open>V\<close> in base 16, 2 and 8, which read back as that magnitude;
  without the prefix they render the minus sign and the digits. \<open>toHex\<close> of -255 is
  \<open>0x-ff\<close>.
\<close>

theorem negative_renderings_put_marker_first:
  assumes "V < 0"
  shows "toHex \<lparr>value = V\<rparr> (Some True) = Inr (ascii ''0x-'' @ digits 16 (nat (- V)))
   \<and> toBinary \<lparr>value = V\<rparr> (Some True) = Inr (ascii ''0b-'' @ digits 2 (nat (- V)))
   \<and> toOctal \<lparr>value = V\<rparr> (Some True) = Inr (ascii ''0o-'' @ digits 8 (nat (- V)))
   \<and> toHex \<lparr>value = V\<rparr> (Some False) = Inr (ascii ''-'' @ digits 16 (nat (- V)))
   \<and> toBinary \<lparr>value = V\<rparr> (Some False) = Inr (ascii ''-'' @ digits 2 (nat (- V)))
   \<and> toOctal \<lparr>value = V\<rparr> (Some False) = Inr (ascii ''-'' @ digits 8 (nat (- V)))
   \<and> parse_radix 16 (digits 16 (nat (- V))) = Some (nat (- V))
   \<and> parse_radix 2 (digits 2 (nat (- V))) = Some (nat (- V))
   \<and> parse_radix 8 (digits 8 (nat (- V))) = Some (nat (- V))"
  using negative_rendering [OF assms, of 16] negative_rendering [OF assms, of 2]
    negative_rendering [OF assms, of 8]
  by (simp add: toHex_def toBinary_def toOctal_def ascii_def)

theorem negative_renderings_put_marker_first_witness:
  "(- 255 :: int) < 0 \<and> toHex \<lparr>value = - 255\<rparr> (Some True) = Inr (ascii ''0x-ff'')
   \<and> parse_radix 16 (ascii ''ff'') = Some 255"
  using negative_renderings_put_marker_first [of "- 255"]
  by (simp add: digits_255 ascii_def)

text \<open>
  Claim C4, as stated, fails: \<open>toHex\<close> of -255 with the prefix enabled is \<open>0x-ff\<close>, not
  \<open>-0xff\<close>.
\<close>

theorem minus_sign_not_ahead_of_marker:
  "toHex \<lparr>value = - 255\<rparr> (Some True) = Inr (ascii ''0x-ff'')
   \<and> toHex \<lparr>value = - 255\<rparr> (Some True) \<noteq> Inr (ascii ''-0xff'')"
  by (simp add: toHex_def BigInt_toString_numeral digits_255 ascii_def)


section \<open>Code points\<close>

lemma asIntN_32_id: "0 \<le> x \<Longrightarrow> x < 2 ^ 31 \<Longrightarrow> asIntN 32 x = x"
  by (simp add: asIntN_def Let_def)

lemma code_point_of_range: "0 \<le> code_point_of V \<and> code_point_of V \<le> 0x10FFFF"
proof -
  have "0 \<le> V mod 2 ^ 21" by simp
  then have "0 \<le> V mod 2 ^ 21 AND 0x10FFFF" by simp
  moreover have "V mod 2 ^ 21 AND 0x10FFFF \<le> 0x10FFFF"
    by (rule AND_upper2) simp
  ultimately show ?thesis
    using \<open>0 \<le> V mod 2 ^ 21\<close> by (simp add: code_point_of_def Let_def)
qed

lemma bitand_small:
  assumes "0 \<le> c" "c < 2 ^ 21"
  shows "bitand (Finite c) (Finite 0x10FFFF) = Finite (c AND 0x10FFFF)"
proof -
  have c32: "asIntN 32 c = c"
    using assms by (intro asIntN_32_id) simp_all
  have m32: "asIntN 32 0x10FFFF = 0x10FFFF"
    by (intro asIntN_32_id) simp_all
  have "0 \<le> c AND 0x10FFFF" using assms by simp
  moreover have "c AND 0x10FFFF \<le> 0x10FFFF" by (rule AND_upper2) simp
  ultimately have "asIntN 32 (c AND 0x10FFFF) = c AND 0x10FFFF"
    by (intro asIntN_32_id) simp_all
  then show ?thesis
    by (simp add: bitand_def ToInt32_def c32 m32)
qed

lemma toCodePoint_eq: "toCodePoint \<lparr>value = V\<rparr> = fromCodePoint (Finite (code_point_of V))"
proof -
  have r: "0 \<le> V mod 2 ^ 21" "V mod 2 ^ 21 < 2 ^ 21" by simp_all
  have n: "Number (asUintN 21 V) = Finite (V mod 2 ^ 21)"
    by (rule Number_asUintN) simp
  show ?thesis
    unfolding toCodePoint_def Let_def BigIntCoercion.simps n
    using bitand_small [OF r] by (simp add: greater_def code_point_of_def Let_def not_le)
qed

lemma unat_word16: "0 \<le> x \<Longrightarrow> x < 65536 \<Longrightarrow> unat (word_of_int x :: 16 word) = nat x"
  by (simp add: unat_eq_nat_uint uint_word_of_int take_bit_eq_mod)

lemma fromCodePoint_valid:
  assumes "0 \<le> p" "p \<le> 0x10FFFF"
  shows "\<exists>units. fromCodePoint (Finite p) = Inr units \<and> codePointAt units = Some (nat p)
           \<and> length units = (if p < 0x10000 then 1 else 2)"
proof (cases "p \<le> 0xFFFF")
  case True
  then show ?thesis
    using assms by (simp add: fromCodePoint_def codePointAt_def unat_word16)
next
  case False
  define q where "q = p - 0x10000"
  define h :: "16 word" where "h = word_of_int (q div 0x400 + 0xD800)"
  define l :: "16 word" where "l = word_of_int (q mod 0x400 + 0xDC00)"
  have q: "0 \<le> q" "q < 0x100000" using False assms by (simp_all add: q_def)
  have hr: "0 \<le> q div 0x400" "q div 0x400 < 0x400" using q by auto
  have lr: "0 \<le> q mod 0x400" "q mod 0x400 < 0x400" by auto
  have hi: "unat h = nat (q div 0x400) + 0xD800"
    unfolding h_def using hr by (subst unat_word16) auto
  have lo: "unat l = nat (q mod 0x400) + 0xDC00"
    unfolding l_def using lr by (subst unat_word16) auto
  have "0x10000 + nat (q div 0x400) * 0x400 + nat (q mod 0x400) = nat p"
  proof -
    have "q div 0x400 * 0x400 + q mod 0x400 = q" by simp
    then have "int (0x10000 + nat (q div 0x400) * 0x400 + nat (q mod 0x400)) = p"
      using hr lr by (simp add: q_def)
    then show ?thesis by linarith
  qed
  moreover have "nat (q div 0x400) \<le> 1023" "nat (q mod 0x400) \<le> 1023"
    using hr lr by linarith+
  ultimately have "codePointAt [h, l] = Some (nat p)"
    by (simp add: codePointAt_def is_lead_def is_trail_def hi lo)
  moreover have "fromCodePoint (Finite p) = Inr [h, l]"
    using False assms by (simp add: fromCodePoint_def q_def h_def l_def)
  ultimately show ?thesis
    using False by simp
qed

text \<open>
  Claim C6. For every BigInt \<open>V\<close>, \<open>toCodePoint\<close> renders the code point \<open>c = V mod 2 ^ 21\<close>
  when \<open>c\<close> is at most 0x10FFFF and \<open>c AND 0x10FFFF\<close> otherwise; the rendering never fails,
  reads back as that code point, and has one UTF-16 code unit below 0x10000 and two from
  0x10000 on.
\<close>

theorem toCodePoint_masks_to_21_bits:
  "toCodePoint \<lparr>value = V\<rparr> = fromCodePoint (Finite (code_point_of V))
   \<and> 0 \<le> code_point_of V \<and> code_point_of V \<le> 0x10FFFF
   \<and> (\<exists>units. toCodePoint \<lparr>value = V\<rparr> = Inr units
         \<and> codePointAt units = Some (nat (code_point_of V))
         \<and> length units = (if code_point_of V < 0x10000 then 1 else 2))"
  using toCodePoint_eq [of V] code_point_of_range [of V]
    fromCodePoint_valid [of "code_point_of V"]
  by simp


section \<open>Errors\<close>

lemma typeof_bigint: "typeof v = ascii ''bigint'' \<longleftrightarrow> (\<exists>b. v = BigIntV b)"
proof (cases v)
  case (OtherV k r)
  then show ?thesis by (cases k) (simp_all add: typeof_def ascii_def)
qed (simp_all add: typeof_def ascii_def)

lemma typeof_string: "typeof v = ascii ''string'' \<longleftrightarrow> (\<exists>s. v = StringV s)"
proof (cases v)
  case (OtherV k r)
  then show ?thesis by (cases k) (simp_all add: typeof_def ascii_def)
qed (simp_all add: typeof_def ascii_def)

lemma BigIntCoercion_new_raises: "isl (BigIntCoercion_new v) \<longleftrightarrow> typeof v \<noteq> ascii ''bigint''"
  unfolding typeof_bigint
  by (cases v) (simp_all add: BigIntCoercion_new_def split: sum.splits)

lemma stringToBigInt_raises_default:
  "isl (stringToBigInt v None) \<longleftrightarrow> typeof v \<noteq> ascii ''string''"
  "isl (stringToBigInt v (Some new_TextEncoder)) \<longleftrightarrow> typeof v \<noteq> ascii ''string''"
proof -
  show "isl (stringToBigInt v None) \<longleftrightarrow> typeof v \<noteq> ascii ''string''"
  proof (cases v)
    case (StringV s)
    then show ?thesis
      by (simp add: stringToBigInt_default typeof_string)
  qed (simp_all add: typeof_string stringToBigInt_def split: sum.splits)
  show "isl (stringToBigInt v (Some new_TextEncoder)) \<longleftrightarrow> typeof v \<noteq> ascii ''string''"
  proof (cases v)
    case (StringV s)
    then show ?thesis
      by (simp add: stringToBigInt_default typeof_string)
  qed (simp_all add: typeof_string stringToBigInt_def split: sum.splits)
qed

lemma stringToBigInt_raises_encoder:
  "isl (stringToBigInt (StringV s) (Some e)) \<longleftrightarrow>
     s \<noteq> [] \<and> (isl (encode e s) \<or> encode e s = Inr [])"
  by (cases "encode e s") (simp_all add: stringToBigInt_string)

lemma stringToBigInt_raises_other:
  "isl (stringToBigInt (BigIntV b) encoder)" "isl (stringToBigInt (OtherV k r) encoder)"
  by (simp_all add: stringToBigInt_def split: sum.splits)

lemma BigIntCoercion_new_message:
  assumes "typeof v \<noteq> ascii ''bigint''" "String_of v = Inr shown"
  shows "BigIntCoercion_new v =
           Inl (TypeError (ascii ''Expected a bigint, but received '' @ typeof v
                           @ ascii ''. Value: '' @ shown))"
  using assms unfolding typeof_bigint
  by (cases v) (simp_all add: BigIntCoercion_new_def)

lemma stringToBigInt_message:
  assumes "typeof v \<noteq> ascii ''string''" "String_of v = Inr shown"
  shows "stringToBigInt v encoder =
           Inl (TypeError (ascii ''Expected a string, but received '' @ typeof v
                           @ ascii ''. Value: '' @ shown))"
  using assms unfolding typeof_string
  by (cases v) (simp_all add: stringToBigInt_def)

lemma truncated_radix:
  "ToIntegerOrInfinity (Num q) = Finite t \<Longrightarrow> (t < 2 \<or> 36 < t) = (q < 2 \<or> 37 \<le> q)"
proof -
  assume "ToIntegerOrInfinity (Num q) = Finite t"
  then have t: "t = (if q < 0 then \<lceil>q\<rceil> else \<lfloor>q\<rfloor>)"
    by (simp add: ToIntegerOrInfinity_def)
  show ?thesis
  proof (cases "q < 0")
    case True
    then have "\<lceil>q\<rceil> \<le> 0" by (simp add: ceiling_le_iff)
    with True t show ?thesis by simp
  next
    case False
    have "\<lfloor>q\<rfloor> < 2 \<longleftrightarrow> q < 2" by (simp add: floor_less_iff)
    moreover have "36 < \<lfloor>q\<rfloor> \<longleftrightarrow> 37 \<le> q" by (simp add: less_floor_iff)
    ultimately show ?thesis using False t by simp
  qed
qed

lemma toString_radix:
  "toString x (Some (Num q)) = Inl RangeError \<longleftrightarrow> q < 2 \<or> 37 \<le> q"
  "isl (toString x (Some (Num q))) \<longleftrightarrow> q < 2 \<or> 37 \<le> q"
  "toString x (Some NaN) = Inl RangeError"
  "toString x (Some PlusInfinity) = Inl RangeError"
  "toString x (Some MinusInfinity) = Inl RangeError"
  "\<not> isl (toString x None)"
proof -
  obtain t where t: "ToIntegerOrInfinity (Num q) = Finite t"
    by (simp add: ToIntegerOrInfinity_def)
  show "toString x (Some (Num q)) = Inl RangeError \<longleftrightarrow> q < 2 \<or> 37 \<le> q"
    using truncated_radix [OF t] by (simp add: toString_def BigInt_toString_def t)
  show "isl (toString x (Some (Num q))) \<longleftrightarrow> q < 2 \<or> 37 \<le> q"
    using truncated_radix [OF t] by (simp add: toString_def BigInt_toString_def t)
  show "toString x (Some NaN) = Inl RangeError"
    "toString x (Some PlusInfinity) = Inl RangeError"
    "toString x (Some MinusInfinity) = Inl RangeError"
    by (simp_all add: toString_def BigInt_toString_def ToIntegerOrInfinity_def)
  show "\<not> isl (toString x None)"
    by (simp add: toString_def BigInt_toString_numeral)
qed

lemma renderings_total:
  "\<not> isl (toHex x prefix)" "\<not> isl (toBinary x prefix)" "\<not> isl (toOctal x prefix)"
  by (simp_all add: toHex_def toBinary_def toOctal_def BigInt_toString_numeral)

lemma equals_raises:
  "equals x None = Inl HostTypeError" "\<not> isl (equals x (Some y))"
  by (simp_all add: equals_def)

lemma toCodePoint_total: "\<not> isl (toCodePoint x)"
proof -
  obtain V where x: "x = \<lparr>value = V\<rparr>" by (cases x) auto
  have "toCodePoint x = fromCodePoint (Finite (code_point_of V))"
    unfolding x by (rule toCodePoint_eq)
  then show ?thesis
    using fromCodePoint_valid [of "code_point_of V"] code_point_of_range [of V]
    by auto
qed

text \<open>
  Claim C7, as the code has it. Construction raises exactly when the value is not a BigInt.
  \<open>stringToBigInt\<close> with no encoder or with a \<open>new TextEncoder()\<close> raises exactly when the
  seed is not a string; with an encoder of the caller's it also raises, for a non-empty
  string, when \<open>encode\<close> throws (that exception) or returns no bytes (a \<open>SyntaxError\<close>), and
  in no other case. In both type checks, when \<open>String(...)\<close> of the offending value yields
  a text, the error is a \<open>TypeError\<close> whose message names the expected kind, the kind
  received and that text. \<open>toString\<close> with a radix raises, a \<open>RangeError\<close>, exactly when the
  radix is \<open>NaN\<close>, infinite, below 2, or 37 or more; a fraction is truncated. \<open>equals\<close>
  raises, a \<open>TypeError\<close>, exactly when its argument is \<open>null\<close> or \<open>undefined\<close>. On an
  instance, \<open>toCodePoint\<close>, \<open>toHex\<close>, \<open>toBinary\<close>, \<open>toOctal\<close> and \<open>toString\<close> without a radix
  never raise. The remaining conversions and the predicates have no failing branch.
\<close>

theorem operations_raise_exactly_when:
  "(isl (BigIntCoercion_new v) \<longleftrightarrow> typeof v \<noteq> ascii ''bigint'')
   \<and> (isl (stringToBigInt v None) \<longleftrightarrow> typeof v \<noteq> ascii ''string'')
   \<and> (isl (stringToBigInt v (Some new_TextEncoder)) \<longleftrightarrow> typeof v \<noteq> ascii ''string'')
   \<and> (isl (stringToBigInt (StringV s) (Some e)) \<longleftrightarrow>
        s \<noteq> [] \<and> (isl (encode e s) \<or> encode e s = Inr []))
   \<and> stringToBigInt (StringV s) (Some e) =
        (if s = [] then Inr \<lparr>value = 0\<rparr>
         else case encode e s of
                Inl err \<Rightarrow> Inl err
              | Inr bytes \<Rightarrow>
                  if bytes = [] then Inl SyntaxError
                  else Inr \<lparr>value = int (big_endian bytes)\<rparr>)
   \<and> isl (stringToBigInt (BigIntV b) encoder)
   \<and> isl (stringToBigInt (OtherV k r) encoder)
   \<and> (typeof v \<noteq> ascii ''bigint'' \<and> String_of v = Inr shown \<longrightarrow>
        BigIntCoercion_new v =
          Inl (TypeError (ascii ''Expected a bigint, but received '' @ typeof v
                          @ ascii ''. Value: '' @ shown)))
   \<and> (typeof v \<noteq> ascii ''string'' \<and> String_of v = Inr shown \<longrightarrow>
        stringToBigInt v encoder =
          Inl (TypeError (ascii ''Expected a string, but received '' @ typeof v
                          @ ascii ''. Value: '' @ shown)))
   \<and> (toString x (Some (Num q)) = Inl RangeError \<longleftrightarrow> q < 2 \<or> 37 \<le> q)
   \<and> (isl (toString x (Some (Num q))) \<longleftrightarrow> q < 2 \<or> 37 \<le> q)
   \<and> toString x (Some NaN) = Inl RangeError
   \<and> toString x (Some PlusInfinity) = Inl RangeError
   \<and> toString x (Some MinusInfinity) = Inl RangeError
   \<and> \<not> isl (toString x None)
   \<and> equals x None = Inl HostTypeError
   \<and> \<not> isl (equals x (Some y))
   \<and> \<not> isl (toCodePoint x)
   \<and> \<not> isl (toHex x prefix) \<and> \<not> isl (toBinary x prefix) \<and> \<not> isl (toOctal x prefix)"
proof -
  have m1: "typeof v \<noteq> ascii ''bigint'' \<and> String_of v = Inr shown \<longrightarrow>
        BigIntCoercion_new v =
          Inl (TypeError (ascii ''Expected a bigint, but received '' @ typeof v
                          @ ascii ''. Value: '' @ shown))"
    using BigIntCoercion_new_message [of v shown] by blast
  have m2: "typeof v \<noteq> ascii ''string'' \<and> String_of v = Inr shown \<longrightarrow>
        stringToBigInt v encoder =
          Inl (TypeError (ascii ''Expected a string, but received '' @ typeof v
                          @ ascii ''. Value: '' @ shown))"
    using stringToBigInt_message [of v shown encoder] by blast
  have st: "stringToBigInt (StringV s) (Some e) =
        (if s = [] then Inr \<lparr>value = 0\<rparr>
         else case encode e s of
                Inl err \<Rightarrow> Inl err
              | Inr bytes \<Rightarrow>
                  if bytes = [] then Inl SyntaxError
                  else Inr \<lparr>value = int (big_endian bytes)\<rparr>)"
    using stringToBigInt_string [of s "Some e"] by simp
  show ?thesis
    using BigIntCoercion_new_raises [of v] stringToBigInt_raises_default [of v]
      stringToBigInt_raises_encoder [of s e] st stringToBigInt_raises_other
      m1 m2 toString_radix equals_raises toCodePoint_total [of x] renderings_total
    by (intro conjI)
qed

theorem operations_raise_exactly_when_witness:
  "typeof (OtherV NumberK (Inr (ascii ''42''))) \<noteq> ascii ''bigint''
   \<and> typeof (OtherV NumberK (Inr (ascii ''42''))) \<noteq> ascii ''string''
   \<and> String_of (OtherV NumberK (Inr (ascii ''42''))) = Inr (ascii ''42'')
   \<and> BigIntCoercion_new (OtherV NumberK (Inr (ascii ''42''))) =
       Inl (TypeError (ascii ''Expected a bigint, but received number. Value: 42''))
   \<and> stringToBigInt (OtherV NumberK (Inr (ascii ''42''))) None =
       Inl (TypeError (ascii ''Expected a string, but received number. Value: 42''))"
proof -
  have t: "typeof (OtherV NumberK (Inr (ascii ''42''))) = ascii ''number''"
    by (simp add: typeof_def)
  have n: "ascii ''number'' \<noteq> ascii ''bigint''" "ascii ''number'' \<noteq> ascii ''string''"
    by (simp_all add: ascii_def)
  have s: "String_of (OtherV NumberK (Inr (ascii ''42''))) = Inr (ascii ''42'')"
    by (simp add: String_of_def)
  note c = operations_raise_exactly_when
      [where v = "OtherV NumberK (Inr (ascii ''42''))" and shown = "ascii ''42''"
         and encoder = None]
  from c t n s have "BigIntCoercion_new (OtherV NumberK (Inr (ascii ''42''))) =
       Inl (TypeError (ascii ''Expected a bigint, but received '' @ ascii ''number''
                       @ ascii ''. Value: '' @ ascii ''42''))"
    and "stringToBigInt (OtherV NumberK (Inr (ascii ''42''))) None =
       Inl (TypeError (ascii ''Expected a string, but received '' @ ascii ''number''
                       @ ascii ''. Value: '' @ ascii ''42''))"
    by simp_all
  then show ?thesis
    using t n s by (simp add: ascii_def)
qed

text \<open>
  Claim C7, as stated, fails. On the instance constructed from 0, \<open>toString\<close> with radix 37
  raises a \<open>RangeError\<close> and \<open>equals\<close> with \<open>null\<close> raises a \<open>TypeError\<close>; and for the string
  \<open>A\<close>, \<open>stringToBigInt\<close> with an encoder whose \<open>encode\<close> returns no bytes raises a
  \<open>SyntaxError\<close>.
\<close>

theorem raises_beyond_entry_validation:
  "toString \<lparr>value = 0\<rparr> (Some (Num 37)) = Inl RangeError
   \<and> BigIntCoercion_new (BigIntV 0) = Inr \<lparr>value = 0\<rparr>
   \<and> equals \<lparr>value = 0\<rparr> None = Inl HostTypeError
   \<and> stringToBigInt (StringV (ascii ''A'')) (Some (constant_encoder [])) = Inl SyntaxError"
proof -
  have "ascii ''A'' \<noteq> []" by (simp add: ascii_def)
  then have "stringToBigInt (StringV (ascii ''A'')) (Some (constant_encoder [])) = Inl SyntaxError"
    by (simp add: stringToBigInt_string constant_encoder_def)
  moreover have "toString \<lparr>value = 0\<rparr> (Some (Num 37)) = Inl RangeError"
    using BigInt_toString_int [of 0 37] by (simp add: toString_def)
  ultimately show ?thesis
    by (simp add: BigIntCoercion_new_def equals_def)
qed

text \<open>
  A fractional radix is truncated: \<open>toString(36.5)\<close> of 35 is \<open>z\<close>.
\<close>

lemma toString_fractional_radix:
  "toString \<lparr>value = 35\<rparr> (Some (Num (73 / 2))) = Inr (ascii ''z'')"
proof -
  have "\<lfloor>73 / 2 :: rat\<rfloor> = 36"
    by (rule floor_unique) simp_all
  then show ?thesis
    by (simp add: toString_def BigInt_toString_def ToIntegerOrInfinity_def digits_small
        digit_char_def ascii_def)
qed

text \<open>
  Where \<open>String(...)\<close> of the offending value throws, as for \<open>Object.create(null)\<close>, that
  exception leaves the type check and no message is built. The documentation of
  \<open>stringToBigInt\<close> says that the message includes the type received and the value.
\<close>

lemma type_check_rethrows_String_failure:
  "BigIntCoercion_new (OtherV Object (Inl HostTypeError)) = Inl HostTypeError
   \<and> stringToBigInt (OtherV Object (Inl HostTypeError)) None = Inl HostTypeError"
  by (simp add: BigIntCoercion_new_def stringToBigInt_def String_of_def)


end
